theory Spec2Isabelle
  imports Complex_Main
begin

section \<open>JavaScript values used by the ingestion engine\<close>

text \<open>
  A JavaScript \<^verbatim>\<open>number\<close> is a finite value, NaN or an infinity. Every finite double is a
  rational, so the finite values are modelled as \<^typ>\<open>rat\<close>.
\<close>

datatype jsnum = Finite rat | NaN | PosInfinity | NegInfinity

text \<open>
  The values a field of a raw JSON record can hold. \<open>Obj\<close> stands for any object, array
  or function: the code only looks at its type tag and its truthiness.
\<close>

datatype jsval = Undefined | Null | Str string | Num jsnum | Bool bool | Obj

text \<open>JavaScript truthiness (ToBoolean), as used by \<^verbatim>\<open>if (x)\<close> and \<^verbatim>\<open>!x\<close>.\<close>

fun truthy :: "jsval \<Rightarrow> bool" where
  "truthy Undefined = False"
| "truthy Null = False"
| "truthy (Str s) = (s \<noteq> [])"
| "truthy (Num (Finite q)) = (q \<noteq> 0)"
| "truthy (Num NaN) = False"
| "truthy (Num PosInfinity) = True"
| "truthy (Num NegInfinity) = True"
| "truthy (Bool b) = b"
| "truthy Obj = True"

text \<open>
  A \<^verbatim>\<open>Date\<close> holds a time value: an integral number of milliseconds since the epoch, or
  NaN (an invalid date, \<open>None\<close> here). \<^verbatim>\<open>new Date(number)\<close> applies TimeClip: a non-finite
  value or one beyond 8.64e15 in magnitude gives NaN, any other value is truncated
  towards zero.
\<close>

definition trunc :: "rat \<Rightarrow> int" where
  "trunc q = (if q < 0 then - \<lfloor>- q\<rfloor> else \<lfloor>q\<rfloor>)"

fun TimeClip :: "jsnum \<Rightarrow> int option" where
  "TimeClip (Finite q) = (if \<bar>q\<bar> > 8640000000000000 then None else Some (trunc q))"
| "TimeClip NaN = None"
| "TimeClip PosInfinity = None"
| "TimeClip NegInfinity = None"

subsection \<open>\<^verbatim>\<open>parseInt(s, 10)\<close>\<close>

definition digit_of :: "char \<Rightarrow> nat option" where
  "digit_of c = (let n = (of_char c :: nat) in if 48 \<le> n \<and> n \<le> 57 then Some (n - 48) else None)"

definition is_digit :: "char \<Rightarrow> bool" where
  "is_digit c = (digit_of c \<noteq> None)"

text \<open>The value of a string of decimal digits, read left to right.\<close>

fun digits_value :: "nat \<Rightarrow> string \<Rightarrow> nat" where
  "digits_value acc [] = acc"
| "digits_value acc (c # cs) = digits_value (10 * acc + (case digit_of c of Some d \<Rightarrow> d | None \<Rightarrow> 0)) cs"

definition is_space :: "char \<Rightarrow> bool" where
  "is_space c = ((of_char c :: nat) \<in> {9, 10, 11, 12, 13, 32, 160})"

text \<open>
  \<^verbatim>\<open>parseInt(s, 10)\<close>: leading white space is skipped, one sign is accepted, then the
  longest prefix of decimal digits is read; with no digit the result is NaN (\<open>None\<close>).
  A string is a list of code units below 256, as a header value is; the white space
  among them is tab, line feed, vertical tab, form feed, carriage return, space and the
  no-break space.
\<close>

definition parseInt :: "string \<Rightarrow> int option" where
  "parseInt s =
     (let t = dropWhile is_space s;
          neg = (t \<noteq> [] \<and> hd t = CHR ''-'');
          u = (if t \<noteq> [] \<and> (hd t = CHR ''-'' \<or> hd t = CHR ''+'') then tl t else t);
          ds = takeWhile is_digit u
      in if ds = [] then None
         else Some (if neg then - int (digits_value 0 ds) else int (digits_value 0 ds)))"

subsection \<open>\<^verbatim>\<open>Date.parse\<close>\<close>

text \<open>
  The ECMAScript date arithmetic: the day number of the first day of a year, leap years,
  the day within the year of the first day of a month (months from 1), and the time
  value of a calendar instant in UTC.
\<close>

definition DayFromYear :: "int \<Rightarrow> int" where
  "DayFromYear y = 365 * (y - 1970) + (y - 1969) div 4 - (y - 1901) div 100 + (y - 1601) div 400"

definition InLeapYear :: "int \<Rightarrow> bool" where
  "InLeapYear y = (y mod 4 = 0 \<and> (y mod 100 \<noteq> 0 \<or> y mod 400 = 0))"

definition DaysInMonth :: "int \<Rightarrow> nat \<Rightarrow> nat" where
  "DaysInMonth y m =
     (if m = 2 then (if InLeapYear y then 29 else 28)
      else if m \<in> {4, 6, 9, 11} then 30 else 31)"

definition DayWithinYear :: "int \<Rightarrow> nat \<Rightarrow> int" where
  "DayWithinYear y m = int (sum_list (map (DaysInMonth y) [1..<m]))"

definition MakeDay :: "int \<Rightarrow> nat \<Rightarrow> nat \<Rightarrow> int" where
  "MakeDay y m d = DayFromYear y + DayWithinYear y m + int d - 1"

definition MakeTime :: "nat \<Rightarrow> nat \<Rightarrow> nat \<Rightarrow> nat \<Rightarrow> int" where
  "MakeTime h mi s ms = int h * 3600000 + int mi * 60000 + int s * 1000 + int ms"

definition MakeDate :: "int \<Rightarrow> int \<Rightarrow> int" where
  "MakeDate day time = day * 86400000 + time"

definition number_of :: "string \<Rightarrow> nat option" where
  "number_of s = (if s \<noteq> [] \<and> list_all is_digit s then Some (digits_value 0 s) else None)"

text \<open>
  The complete UTC form of the ECMAScript date-time string format,
  \<^verbatim>\<open>YYYY-MM-DDTHH:mm:ss.sssZ\<close>. A string of another shape, or with a field out of
  range, is not an instance of the format (\<open>None\<close>).
\<close>

definition iso_utc :: "string \<Rightarrow> int option" where
  "iso_utc s =
     (if length s = 24 \<and> s ! 4 = CHR ''-'' \<and> s ! 7 = CHR ''-'' \<and> s ! 10 = CHR ''T''
         \<and> s ! 13 = CHR '':'' \<and> s ! 16 = CHR '':'' \<and> s ! 19 = CHR ''.'' \<and> s ! 23 = CHR ''Z''
      then
        (case (number_of (take 4 s), number_of (take 2 (drop 5 s)), number_of (take 2 (drop 8 s)),
               number_of (take 2 (drop 11 s)), number_of (take 2 (drop 14 s)),
               number_of (take 2 (drop 17 s)), number_of (take 3 (drop 20 s))) of
           (Some y, Some m, Some d, Some h, Some mi, Some sec, Some ms) \<Rightarrow>
             if 1 \<le> m \<and> m \<le> 12 \<and> 1 \<le> d \<and> d \<le> DaysInMonth (int y) m
                \<and> mi \<le> 59 \<and> sec \<le> 59
                \<and> (h \<le> 23 \<or> (h = 24 \<and> mi = 0 \<and> sec = 0 \<and> ms = 0))
             then Some (MakeDate (MakeDay (int y) m d) (MakeTime h mi sec ms))
             else None
         | _ \<Rightarrow> None)
      else None)"

text \<open>
  \<^verbatim>\<open>Date.parse\<close> is a built-in of the runtime. On the complete UTC form its result is
  fixed by the language; what it makes of any other string is left to the runtime and is
  the parameter \<open>other\<close> (\<open>None\<close> is NaN).
\<close>

definition Date_parse :: "(string \<Rightarrow> int option) \<Rightarrow> string \<Rightarrow> int option" where
  "Date_parse other s = (case iso_utc s of Some t \<Rightarrow> Some t | None \<Rightarrow> other s)"

section \<open>Record normalisation (transformer.ts)\<close>

text \<open>
  The errors the engine throws. Each constructor is one \<^verbatim>\<open>throw\<close> of the source, or an
  error handed on from a collaborator (the HTTP client, the database driver).
\<close>

record http_error_response =
  status :: nat
  data_code :: "string option"
  retry_after :: "string option"

record axios_error =
  response :: "http_error_response option"
  code :: "string option"

datatype error =
    TimestampMissing
  | TimestampBadString string
  | TimestampBadFormat
  | TimestampInvalid
  | MissingId
  | StreamTokenExpired
  | AuthError nat
  | Axios axios_error
  | Other string
  | DbError string

text \<open>
  A raw event has the declared fields \<^verbatim>\<open>id?: string\<close> and \<^verbatim>\<open>type?: string\<close>; the
  timestamp is kept as any JavaScript value, since \<^verbatim>\<open>normalizeTimestamp\<close> tests for
  null, undefined and foreign types itself. \<open>raw_extra\<close> stands for the other fields of
  the record, which the code copies and never reads.
\<close>

record raw_event =
  raw_id :: "string option"
  raw_type :: "string option"
  raw_timestamp :: jsval
  raw_extra :: "(string \<times> string) list"

record transformed_row =
  row_id :: string
  event_type :: "string option"
  timestamp :: "int option"
  data :: raw_event

definition normalizeTimestamp :: "(string \<Rightarrow> int option) \<Rightarrow> jsval \<Rightarrow> error + int" where
  "normalizeTimestamp other input =
     (case input of
        Null \<Rightarrow> Inl TimestampMissing
      | Undefined \<Rightarrow> Inl TimestampMissing
      | Num n \<Rightarrow> (case TimeClip n of None \<Rightarrow> Inl TimestampInvalid | Some t \<Rightarrow> Inr t)
      | Str s \<Rightarrow>
          (case Date_parse other s of
             None \<Rightarrow> Inl (TimestampBadString s)
           | Some parsed \<Rightarrow>
               (case TimeClip (Finite (of_int parsed)) of
                  None \<Rightarrow> Inl TimestampInvalid
                | Some t \<Rightarrow> Inr t))
      | _ \<Rightarrow> Inl TimestampBadFormat)"

definition transformEvent :: "(string \<Rightarrow> int option) \<Rightarrow> raw_event \<Rightarrow> error + transformed_row" where
  "transformEvent other raw =
     (case raw_id raw of
        None \<Rightarrow> Inl MissingId
      | Some i \<Rightarrow>
          if i = [] then Inl MissingId
          else
            (let ty = (case raw_type raw of None \<Rightarrow> None | Some t \<Rightarrow> if t = [] then None else Some t)
             in if truthy (raw_timestamp raw)
                then (case normalizeTimestamp other (raw_timestamp raw) of
                        Inl e \<Rightarrow> Inl e
                      | Inr t \<Rightarrow> Inr \<lparr>row_id = i, event_type = ty, timestamp = Some t, data = raw\<rparr>)
                else Inr \<lparr>row_id = i, event_type = ty, timestamp = None, data = raw\<rparr>))"

text \<open>\<^verbatim>\<open>rawEvents.map(transformEvent)\<close>: the first record that fails aborts the whole map.\<close>

fun transformEvents :: "(string \<Rightarrow> int option) \<Rightarrow> raw_event list \<Rightarrow> error + transformed_row list" where
  "transformEvents other [] = Inr []"
| "transformEvents other (raw # raws) =
     (case transformEvent other raw of
        Inl e \<Rightarrow> Inl e
      | Inr row \<Rightarrow>
          (case transformEvents other raws of
             Inl e \<Rightarrow> Inl e
           | Inr rows \<Rightarrow> Inr (row # rows)))"

section \<open>The destination store\<close>

text \<open>
  The three tables the engine uses. \<open>ingested_events\<close> has \<^verbatim>\<open>id\<close> as its primary key,
  \<open>staging_events\<close> has no constraint, \<open>cursor_state\<close> holds one row per saved checkpoint
  (cursor value and event count), oldest first.
\<close>

record database =
  staging_events :: "transformed_row list"
  ingested_events :: "transformed_row list"
  cursor_state :: "(string \<times> int) list"

text \<open>
  What the rest of the world decides for the engine: whether a database operation (one
  flush transaction, one checkpoint insert, one checkpoint select) goes through or fails.
\<close>

datatype db_outcome = DbOk | DbFails string

datatype warning =
    StreamTokenWarning
  | CursorExpiredWarning
  | RateLimitedWarning "int option"
  | PipelineInterrupted error

text \<open>
  The observable effects of a run, in the order they happen: an HTTP request (endpoint,
  \<^verbatim>\<open>limit\<close> and \<^verbatim>\<open>cursor\<close> parameters), a call of \<^verbatim>\<open>delay(ms)\<close> (\<open>None\<close> is NaN), a warning,
  a committed or rolled-back flush of a batch, and an insert into \<open>cursor_state\<close>.
\<close>

datatype event =
    Get string nat "string option"
  | Delay "int option"
  | Warn warning
  | Commit "transformed_row list"
  | Rollback "transformed_row list"
  | SaveCursor string int

text \<open>
  The state a run works on: the database, the writer's buffer, the outcomes of the
  database operations still to come (none left: the operation succeeds) and the trace
  of effects so far.
\<close>

record world =
  db :: database
  buffer :: "transformed_row list"
  faults :: "db_outcome list"
  trace :: "event list"

definition next_outcome :: "world \<Rightarrow> db_outcome \<times> world" where
  "next_outcome w = (case faults w of [] \<Rightarrow> (DbOk, w) | f # fs \<Rightarrow> (f, w\<lparr>faults := fs\<rparr>))"

definition emit :: "event list \<Rightarrow> world \<Rightarrow> world" where
  "emit evs w = w\<lparr>trace := trace w @ evs\<rparr>"

text \<open>The HTTP requests among the effects of a run.\<close>

fun is_request :: "event \<Rightarrow> bool" where
  "is_request (Get ep limit par) = True"
| "is_request e = False"

definition requests :: "world \<Rightarrow> event list" where
  "requests w = filter is_request (trace w)"

section \<open>The batch writer (writer.ts)\<close>

text \<open>
  \<^verbatim>\<open>INSERT INTO ingested_events ... SELECT ... FROM staging_events ON CONFLICT (id) DO NOTHING\<close>:
  each staged row is inserted unless a row with its id is already there, be it an older
  row or one inserted by this very statement.
\<close>

fun insert_skip_conflict :: "transformed_row list \<Rightarrow> transformed_row list \<Rightarrow> transformed_row list" where
  "insert_skip_conflict dest [] = dest"
| "insert_skip_conflict dest (r # rs) =
     insert_skip_conflict (if row_id r \<in> set (map row_id dest) then dest else dest @ [r]) rs"

text \<open>The three statements of the flush transaction.\<close>

definition stage :: "transformed_row list \<Rightarrow> database \<Rightarrow> database" where
  "stage batch d = d\<lparr>staging_events := staging_events d @ batch\<rparr>"

definition upsert :: "database \<Rightarrow> database" where
  "upsert d = d\<lparr>ingested_events := insert_skip_conflict (ingested_events d) (staging_events d)\<rparr>"

definition truncate_staging :: "database \<Rightarrow> database" where
  "truncate_staging d = d\<lparr>staging_events := []\<rparr>"

text \<open>
  \<^verbatim>\<open>flush\<close>: nothing on an empty buffer. Otherwise the buffer is taken and emptied first,
  then the transaction runs. A failure of the connection or of any statement leaves the
  database as it was before \<^verbatim>\<open>BEGIN\<close> (\<^verbatim>\<open>ROLLBACK\<close>) and is thrown on.
\<close>

definition flush :: "world \<Rightarrow> (error + unit) \<times> world" where
  "flush w =
     (if buffer w = [] then (Inr (), w)
      else
        (case next_outcome (w\<lparr>buffer := []\<rparr>) of
           (DbFails msg, w1) \<Rightarrow> (Inl (DbError msg), emit [Rollback (buffer w)] w1)
         | (DbOk, w1) \<Rightarrow>
             (Inr (), emit [Commit (buffer w)]
                        (w1\<lparr>db := truncate_staging (upsert (stage (buffer w) (db w1)))\<rparr>))))"

text \<open>
  \<^verbatim>\<open>add\<close>: each row is pushed, and the buffer is flushed as soon as it holds \<open>batchSize\<close>
  rows; a failed flush aborts the loop.
\<close>

fun add :: "nat \<Rightarrow> transformed_row list \<Rightarrow> world \<Rightarrow> (error + unit) \<times> world" where
  "add batchSize [] w = (Inr (), w)"
| "add batchSize (row # rows) w =
     (if length (buffer w @ [row]) \<ge> batchSize
      then (case flush (w\<lparr>buffer := buffer w @ [row]\<rparr>) of
              (Inl e, w1) \<Rightarrow> (Inl e, w1)
            | (Inr u, w1) \<Rightarrow> add batchSize rows w1)
      else add batchSize rows (w\<lparr>buffer := buffer w @ [row]\<rparr>))"

definition close :: "world \<Rightarrow> (error + unit) \<times> world" where
  "close w = flush w"

text \<open>
  Writing a set of rows as the integration tests do: \<^verbatim>\<open>add(rows)\<close>, then \<^verbatim>\<open>flush()\<close>.
\<close>

definition add_then_flush :: "nat \<Rightarrow> transformed_row list \<Rightarrow> world \<Rightarrow> (error + unit) \<times> world" where
  "add_then_flush batchSize rows w =
     (case add batchSize rows w of
        (Inl e, w1) \<Rightarrow> (Inl e, w1)
      | (Inr u, w1) \<Rightarrow> flush w1)"

text \<open>A world whose database operations all succeed and whose staging table is empty.\<close>

definition quiet :: "world \<Rightarrow> bool" where
  "quiet w = (faults w = [] \<and> staging_events (db w) = [])"

section \<open>The checkpoint (cursor.ts)\<close>

record CursorState =
  cursor :: "string option"
  eventsIngested :: int

datatype row_number = RowStr string | RowNum "int option"

record CursorRow =
  cursor_value :: string
  events_ingested :: row_number

definition create :: CursorState where
  "create = \<lparr>cursor = None, eventsIngested = 0\<rparr>"

definition fromRow :: "CursorRow \<Rightarrow> CursorState" where
  "fromRow row =
     (let events = (case events_ingested row of RowStr s \<Rightarrow> parseInt s | RowNum n \<Rightarrow> n)
      in \<lparr>cursor = Some (cursor_value row),
          eventsIngested = (case events of None \<Rightarrow> 0 | Some n \<Rightarrow> n)\<rparr>)"

definition update :: "CursorState \<Rightarrow> string \<Rightarrow> int \<Rightarrow> CursorState" where
  "update st nextCursor countInBatch =
     \<lparr>cursor = Some nextCursor, eventsIngested = eventsIngested st + countInBatch\<rparr>"

text \<open>
  \<^verbatim>\<open>saveCursor\<close>: a state whose cursor is null is not written; any other state is
  appended to \<open>cursor_state\<close>, and a failure of the insert is thrown on.
\<close>

definition saveCursor :: "CursorState \<Rightarrow> world \<Rightarrow> (error + unit) \<times> world" where
  "saveCursor st w =
     (case cursor st of
        None \<Rightarrow> (Inr (), w)
      | Some c \<Rightarrow>
          (case next_outcome w of
             (DbFails msg, w1) \<Rightarrow> (Inl (DbError msg), w1)
           | (DbOk, w1) \<Rightarrow>
               (Inr (), emit [SaveCursor c (eventsIngested st)]
                          (w1\<lparr>db := (db w1)\<lparr>cursor_state := cursor_state (db w1) @ [(c, eventsIngested st)]\<rparr>\<rparr>))))"

text \<open>
  The driver hands a \<^verbatim>\<open>BIGINT\<close> column over as its decimal text.
\<close>

fun decimal :: "nat \<Rightarrow> string" where
  "decimal n = (if n < 10 then [char_of (48 + n)] else decimal (n div 10) @ [char_of (48 + n mod 10)])"

declare decimal.simps [simp del]

definition bigint_text :: "int \<Rightarrow> string" where
  "bigint_text i = (if i < 0 then CHR ''-'' # decimal (nat (- i)) else decimal (nat i))"

text \<open>
  \<^verbatim>\<open>loadCursor\<close>: the most recent row of \<open>cursor_state\<close>, or null when there is none.
\<close>

definition loadCursor :: "world \<Rightarrow> (error + CursorState option) \<times> world" where
  "loadCursor w =
     (case next_outcome w of
        (DbFails msg, w1) \<Rightarrow> (Inl (DbError msg), w1)
      | (DbOk, w1) \<Rightarrow>
          (case rev (cursor_state (db w1)) of
             [] \<Rightarrow> (Inr None, w1)
           | (c, n) # older \<Rightarrow>
               (Inr (Some (fromRow \<lparr>cursor_value = c, events_ingested = RowStr (bigint_text n)\<rparr>)), w1)))"

section \<open>The paginated fetch client (fetcher.ts)\<close>

record FetchPageResult =
  page_data :: "raw_event list"
  hasMore :: bool
  nextCursor :: string

text \<open>
  What one \<^verbatim>\<open>client.get\<close> comes back with: a response that resolves to a well-formed
  page, a rejection with an axios error, or a rejection with anything else.
\<close>

datatype get_outcome = Resolved FetchPageResult | Rejected axios_error | RejectedOther string

definition baseEndpoint :: string where
  "baseEndpoint = ''/events''"

definition streamEndpoint :: string where
  "streamEndpoint = ''/events/d4ta/x7k9/feed''"

definition endpoint :: "bool \<Rightarrow> string" where
  "endpoint hasStreamToken = (if hasStreamToken then streamEndpoint else baseEndpoint)"

definition maxRetries :: nat where
  "maxRetries = 3"

definition status_of :: "axios_error \<Rightarrow> nat option" where
  "status_of err = map_option status (response err)"

definition isNetworkError :: "axios_error \<Rightarrow> bool" where
  "isNetworkError err = (response err = None \<or> code err = Some ''ECONNABORTED'')"

definition isServerError :: "axios_error \<Rightarrow> bool" where
  "isServerError err = (case status_of err of None \<Rightarrow> False | Some s \<Rightarrow> s \<noteq> 0 \<and> s \<ge> 500)"

definition cursorExpired :: "axios_error \<Rightarrow> bool" where
  "cursorExpired err =
     (case response err of None \<Rightarrow> False | Some r \<Rightarrow> data_code r = Some ''CURSOR_EXPIRED'')"

definition retryAfterHeader :: "axios_error \<Rightarrow> string" where
  "retryAfterHeader err =
     (case response err of
        None \<Rightarrow> ''60''
      | Some r \<Rightarrow> (case retry_after r of None \<Rightarrow> ''60'' | Some h \<Rightarrow> h))"

definition cursor_given :: "string option \<Rightarrow> bool" where
  "cursor_given c = (case c of None \<Rightarrow> False | Some t \<Rightarrow> t \<noteq> [])"

definition then_events :: "event list \<Rightarrow> 'a \<times> 'b \<times> event list \<Rightarrow> 'a \<times> 'b \<times> event list" where
  "then_events evs r = (case r of (a, b, evs') \<Rightarrow> (a, b, evs @ evs'))"

text \<open>
  The \<^verbatim>\<open>while (true)\<close> loop of \<^verbatim>\<open>fetchPage\<close>, run against the outcomes of the requests it
  makes, in order. Its variables are the retry counter \<open>attempt\<close>, the local \<open>cur\<close>
  (\<^verbatim>\<open>cursor\<close>) and \<open>param\<close> (\<^verbatim>\<open>params.cursor\<close>). The result is what the call returns or
  throws (\<open>None\<close>: a request is never answered and the call never returns), the outcomes
  left over, and the effects of the call.
\<close>

fun fetchLoop :: "bool \<Rightarrow> nat \<Rightarrow> nat \<Rightarrow> string option \<Rightarrow> string option \<Rightarrow> get_outcome list
    \<Rightarrow> (error + FetchPageResult) option \<times> get_outcome list \<times> event list" where
  "fetchLoop hasStreamToken limit attempt cur param [] =
     (None, [], [Get (endpoint hasStreamToken) limit param])"
| "fetchLoop hasStreamToken limit attempt cur param (Resolved page # rest) =
     (Some (Inr page), rest, [Get (endpoint hasStreamToken) limit param])"
| "fetchLoop hasStreamToken limit attempt cur param (RejectedOther msg # rest) =
     (Some (Inl (Other msg)), rest, [Get (endpoint hasStreamToken) limit param])"
| "fetchLoop hasStreamToken limit attempt cur param (Rejected err # rest) =
     then_events [Get (endpoint hasStreamToken) limit param]
       (if status_of err = Some 401 \<or> status_of err = Some 403 then
          (if hasStreamToken then (Some (Inl StreamTokenExpired), rest, [Warn StreamTokenWarning])
           else (Some (Inl (AuthError (case status_of err of Some s \<Rightarrow> s | None \<Rightarrow> 0))), rest, []))
        else if status_of err = Some 400 \<and> cursorExpired err \<and> cursor_given cur then
          then_events [Warn CursorExpiredWarning]
            (fetchLoop hasStreamToken limit attempt None None rest)
        else if status_of err = Some 429 then
          then_events
            [Warn (RateLimitedWarning (map_option (\<lambda>n. n + 1) (parseInt (retryAfterHeader err)))),
             Delay (map_option (\<lambda>n. (n + 1) * 1000) (parseInt (retryAfterHeader err)))]
            (fetchLoop hasStreamToken limit attempt cur param rest)
        else if (isNetworkError err \<or> isServerError err) \<and> attempt < maxRetries then
          then_events [Delay (Some (2 ^ (attempt + 1) * 500))]
            (fetchLoop hasStreamToken limit (attempt + 1) cur param rest)
        else (Some (Inl (Axios err)), rest, []))"

definition fetchPage :: "bool \<Rightarrow> nat \<Rightarrow> string option \<Rightarrow> get_outcome list
    \<Rightarrow> (error + FetchPageResult) option \<times> get_outcome list \<times> event list" where
  "fetchPage hasStreamToken limit cur script =
     fetchLoop hasStreamToken limit 0 cur (if cursor_given cur then cur else None) script"

text \<open>
  The failures the retry policy is about: a transient failure is a request without any
  response (network failure, timeout) or a response with a status from 500 on; a
  rate-limited one is a response with status 429.
\<close>

definition transient :: "axios_error \<Rightarrow> bool" where
  "transient err = (case response err of None \<Rightarrow> True | Some r \<Rightarrow> status r \<ge> 500)"

definition rate_limited :: "axios_error \<Rightarrow> bool" where
  "rate_limited err = (case response err of None \<Rightarrow> False | Some r \<Rightarrow> status r = 429)"

text \<open>
  A rate-limited response whose \<^verbatim>\<open>retry-after\<close> header is \<open>hint\<close> (\<open>None\<close>: the header is
  absent).
\<close>

definition rate_limit_response :: "axios_error \<Rightarrow> string option \<Rightarrow> bool" where
  "rate_limit_response err hint =
     (case response err of None \<Rightarrow> False | Some r \<Rightarrow> status r = 429 \<and> retry_after r = hint)"

section \<open>The orchestrator (pipeline.ts)\<close>

text \<open>
  What a pipeline is built from: whether the fetcher holds a stream token
  (\<^verbatim>\<open>isStreamMode\<close>), the writer's batch size, and the runtime's date parser for strings
  outside the complete UTC form.
\<close>

record pipeline =
  hasStreamToken :: bool
  batchSize :: nat
  otherDates :: "string \<Rightarrow> int option"

text \<open>
  \<^verbatim>\<open>stop()\<close> is called by a signal handler at a moment the run does not choose. All the run
  sees is from which read of \<^verbatim>\<open>shouldStop\<close> on the flag is set: \<open>Some k\<close> says that \<open>k\<close>
  more reads see it unset, \<open>None\<close> that it is never set.
\<close>

definition shouldStop :: "nat option \<Rightarrow> bool" where
  "shouldStop stop = (stop = Some 0)"

definition after_read :: "nat option \<Rightarrow> nat option" where
  "after_read stop = (case stop of None \<Rightarrow> None | Some k \<Rightarrow> Some (k - 1))"

text \<open>The remainder operator \<^verbatim>\<open>%\<close> on integers: the sign of the result is that of the dividend.\<close>

definition js_rem :: "int \<Rightarrow> int \<Rightarrow> int" where
  "js_rem a b = (if a < 0 then - ((- a) mod \<bar>b\<bar>) else a mod \<bar>b\<bar>)"

text \<open>
  The body both loops run on a fetched page: transform, add to the writer, advance the
  checkpoint, and save it when the count is within \<open>limit\<close> of a multiple of 50000. The
  result is the error thrown, if any, with the checkpoint state at that moment. The
  progress tracker and the progress callback only read the count and the clock and are
  left out.
\<close>

definition processPage :: "pipeline \<Rightarrow> nat \<Rightarrow> FetchPageResult \<Rightarrow> CursorState \<Rightarrow> world
    \<Rightarrow> error option \<times> CursorState \<times> world" where
  "processPage p limit page st w =
     (if length (page_data page) > 0 then
        (case transformEvents (otherDates p) (page_data page) of
           Inl e \<Rightarrow> (Some e, st, w)
         | Inr rows \<Rightarrow>
             (case add (batchSize p) rows w of
                (Inl e, w1) \<Rightarrow> (Some e, st, w1)
              | (Inr u, w1) \<Rightarrow>
                  (if js_rem (eventsIngested (update st (nextCursor page) (int (length rows)))) 50000 < int limit
                   then (case saveCursor (update st (nextCursor page) (int (length rows))) w1 of
                           (Inl e, w2) \<Rightarrow> (Some e, update st (nextCursor page) (int (length rows)), w2)
                         | (Inr u', w2) \<Rightarrow> (None, update st (nextCursor page) (int (length rows)), w2))
                   else (None, update st (nextCursor page) (int (length rows)), w1))))
      else (None, st, w))"

text \<open>
  How a fetch loop ends: it waits for ever on a request that is never answered, it
  throws, or it leaves the loop. The checkpoint state, the world and the outcomes not yet
  consumed come with it.
\<close>

datatype loop_result =
    Hangs world
  | Throws error CursorState world "get_outcome list"
  | Ends CursorState world "get_outcome list"

text \<open>
  Standard mode: fetch, process, pace, one page at a time. The flag is read by the loop
  condition and, when the page has a successor, by the pacing test. The pacing sleep
  itself depends on the clock only and changes nothing here.
\<close>

function standard_loop :: "pipeline \<Rightarrow> nat \<Rightarrow> nat option \<Rightarrow> bool \<Rightarrow> CursorState \<Rightarrow> world
    \<Rightarrow> get_outcome list \<Rightarrow> loop_result" where
  "standard_loop p limit stop going st w script =
     (if \<not> going \<or> shouldStop stop then Ends st w script
      else
        (case fetchPage (hasStreamToken p) limit (cursor st) script of
           (None, rest, evs) \<Rightarrow> Hangs (emit evs w)
         | (Some (Inl e), rest, evs) \<Rightarrow> Throws e st (emit evs w) rest
         | (Some (Inr page), rest, evs) \<Rightarrow>
             (case processPage p limit page st (emit evs w) of
                (Some e, st1, w1) \<Rightarrow> Throws e st1 w1 rest
              | (None, st1, w1) \<Rightarrow>
                  standard_loop p limit
                    (if hasMore page then after_read (after_read stop) else after_read stop)
                    (hasMore page) st1 w1 rest)))"
  by pat_completeness auto
termination
proof -
  have consumed: "length rest < length script"
    if "fetchLoop tok lim att cur par script = (Some r, rest, evs)"
    for tok lim att cur par script r rest evs
    using that
  proof (induction tok lim att cur par script arbitrary: r rest evs rule: fetchLoop.induct)
    case (4 tok lim att cur par err others)
    then show ?case
      by (auto simp: then_events_def split: if_splits prod.splits)
  qed auto
  show ?thesis
    by (relation "measure (\<lambda>(p, limit, stop, going, st, w, script). length script)")
       (auto simp: fetchPage_def dest: consumed [OF sym])
qed

text \<open>
  Stream mode: the fetch of the next page is issued before the current page is processed.
  \<open>pending\<close> is what the outstanding fetch settles to (\<open>None\<close>: never); its requests are
  made when it is issued. When no new fetch is issued, \<^verbatim>\<open>pendingFetch\<close> keeps the promise
  already awaited.
\<close>

function stream_loop :: "pipeline \<Rightarrow> nat \<Rightarrow> nat option \<Rightarrow> bool \<Rightarrow> (error + FetchPageResult) option
    \<Rightarrow> CursorState \<Rightarrow> world \<Rightarrow> get_outcome list \<Rightarrow> loop_result" where
  "stream_loop p limit stop going pending st w script =
     (if \<not> going \<or> shouldStop stop then Ends st w script
      else
        (case pending of
           None \<Rightarrow> Hangs w
         | Some (Inl e) \<Rightarrow> Throws e st w script
         | Some (Inr page) \<Rightarrow>
             (if hasMore page \<and> \<not> shouldStop (after_read stop) then
                (case fetchPage (hasStreamToken p) limit (Some (nextCursor page)) script of
                   (pending', rest, evs) \<Rightarrow>
                     (case processPage p limit page st (emit evs w) of
                        (Some e, st1, w1) \<Rightarrow> Throws e st1 w1 rest
                      | (None, st1, w1) \<Rightarrow>
                          stream_loop p limit (after_read (after_read stop)) True pending' st1 w1 rest))
              else
                (case processPage p limit page st w of
                   (Some e, st1, w1) \<Rightarrow> Throws e st1 w1 script
                 | (None, st1, w1) \<Rightarrow>
                     stream_loop p limit
                       (if hasMore page then after_read (after_read stop) else after_read stop)
                       (hasMore page) pending st1 w1 script))))"
  by pat_completeness auto
termination
proof -
  have consumed: "length rest < length script"
    if "fetchLoop tok lim att cur par script = (Some r, rest, evs)"
    for tok lim att cur par script r rest evs
    using that
  proof (induction tok lim att cur par script arbitrary: r rest evs rule: fetchLoop.induct)
    case (4 tok lim att cur par err others)
    then show ?case
      by (auto simp: then_events_def split: if_splits prod.splits)
  qed auto
  have unanswered: "rest = []"
    if "fetchLoop tok lim att cur par script = (None, rest, evs)"
    for tok lim att cur par script rest evs
    using that
  proof (induction tok lim att cur par script arbitrary: rest evs rule: fetchLoop.induct)
    case (4 tok lim att cur par err others)
    then show ?case
      by (auto simp: then_events_def split: if_splits prod.splits)
  qed auto
  have shorter: "2 * length rest + (case q of Some (Inr x) \<Rightarrow> 1 | _ \<Rightarrow> 0) < Suc (2 * length script)"
    if "fetchLoop tok lim att cur par script = (q, rest, evs)"
    for tok lim att cur par script q rest evs
  proof (cases q)
    case None
    with that show ?thesis by (auto dest: unanswered)
  next
    case (Some r)
    with that have "length rest < length script" by (auto dest: consumed)
    then show ?thesis by (auto split: option.splits sum.splits)
  qed
  show ?thesis
    by (relation "measure (\<lambda>(p, limit, stop, going, pending, st, w, script).
          if \<not> going \<or> shouldStop stop then 0
          else 1 + 2 * length script + (case pending of Some (Inr x) \<Rightarrow> 1 | _ \<Rightarrow> 0))")
       (auto simp: fetchPage_def shouldStop_def after_read_def dest!: shorter [OF sym]
             split: option.splits sum.splits)
qed

text \<open>
  The equations of the two loops are unfolded by hand, one iteration at a time.
\<close>

declare standard_loop.simps [simp del] stream_loop.simps [simp del]

text \<open>
  \<^verbatim>\<open>run\<close>: load the checkpoint (a fresh state when there is none), run the loop of the
  mode inside \<^verbatim>\<open>try\<close>, then close the writer and save the checkpoint. An error thrown
  inside the loop is logged, the writer is closed and the checkpoint saved before the
  error is thrown on. The result is \<open>None\<close> when the run never returns.
\<close>

definition drain :: "CursorState \<Rightarrow> world \<Rightarrow> (error + unit) \<times> world" where
  "drain st w =
     (case close w of
        (Inl e, w1) \<Rightarrow> (Inl e, w1)
      | (Inr u, w1) \<Rightarrow> saveCursor st w1)"

definition start_state :: "CursorState option \<Rightarrow> CursorState" where
  "start_state loaded = (case loaded of None \<Rightarrow> create | Some st \<Rightarrow> st)"

definition fetch_loop :: "pipeline \<Rightarrow> nat option \<Rightarrow> CursorState \<Rightarrow> world \<Rightarrow> get_outcome list
    \<Rightarrow> loop_result" where
  "fetch_loop p stop st w script =
     (if hasStreamToken p
      then (case fetchPage (hasStreamToken p) 40000 (cursor st) script of
              (pending, rest, evs) \<Rightarrow> stream_loop p 40000 stop True pending st (emit evs w) rest)
      else standard_loop p 5000 stop True st w script)"

definition finish :: "loop_result \<Rightarrow> (error + unit) option \<times> world \<times> get_outcome list" where
  "finish r =
     (case r of
        Hangs w1 \<Rightarrow> (None, w1, [])
      | Throws e st1 w1 rest \<Rightarrow>
          (case drain st1 (emit [Warn (PipelineInterrupted e)] w1) of
             (Inl e', w2) \<Rightarrow> (Some (Inl e'), w2, rest)
           | (Inr u, w2) \<Rightarrow> (Some (Inl e), w2, rest))
      | Ends st1 w1 rest \<Rightarrow>
          (case drain st1 w1 of
             (Inl e, w2) \<Rightarrow> (Some (Inl e), w2, rest)
           | (Inr u, w2) \<Rightarrow> (Some (Inr ()), w2, rest)))"

definition run :: "pipeline \<Rightarrow> nat option \<Rightarrow> world \<Rightarrow> get_outcome list
    \<Rightarrow> (error + unit) option \<times> world \<times> get_outcome list" where
  "run p stop w script =
     (case loadCursor w of
        (Inl e, w0) \<Rightarrow> (Some (Inl e), w0, script)
      | (Inr loaded, w0) \<Rightarrow> finish (fetch_loop p stop (start_state loaded) w0 script))"

text \<open>The checkpoint state a loop result carries, if the loop came to an end.\<close>

fun final_state :: "loop_result \<Rightarrow> CursorState option" where
  "final_state (Hangs w) = None"
| "final_state (Throws e st w rest) = Some st"
| "final_state (Ends st w rest) = Some st"

fun world_of :: "loop_result \<Rightarrow> world" where
  "world_of (Hangs w) = w"
| "world_of (Throws e st w rest) = w"
| "world_of (Ends st w rest) = w"

section \<open>Sample data\<close>

text \<open>
  A store with empty tables, an idle writer and a database that does not fail; a raw
  event as the tests build it; the single page of the one-page scenario.
\<close>

definition fresh_world :: world where
  "fresh_world =
     \<lparr>db = \<lparr>staging_events = [], ingested_events = [], cursor_state = []\<rparr>,
      buffer = [], faults = [], trace = []\<rparr>"

definition no_other_dates :: "string \<Rightarrow> int option" where
  "no_other_dates s = None"

definition sample_event :: "string \<Rightarrow> raw_event" where
  "sample_event i =
     \<lparr>raw_id = Some i, raw_type = Some ''click'',
      raw_timestamp = Str ''2026-01-01T00:00:00.000Z'', raw_extra = []\<rparr>"

definition sample_row :: "string \<Rightarrow> transformed_row" where
  "sample_row i =
     \<lparr>row_id = i, event_type = Some ''click'', timestamp = Some 1767225600000,
      data = sample_event i\<rparr>"

definition single_page :: FetchPageResult where
  "single_page =
     \<lparr>page_data = [sample_event ''1'', sample_event ''2'', sample_event ''3''],
      hasMore = False, nextCursor = ''cur-final''\<rparr>"

definition standard_pipeline :: pipeline where
  "standard_pipeline = \<lparr>hasStreamToken = False, batchSize = 5000, otherDates = no_other_dates\<rparr>"

definition server_error_500 :: axios_error where
  "server_error_500 = \<lparr>response = Some \<lparr>status = 500, data_code = None, retry_after = None\<rparr>, code = None\<rparr>"

definition timeout_error :: axios_error where
  "timeout_error = \<lparr>response = None, code = Some ''ECONNABORTED''\<rparr>"

definition cursor_expired_400 :: axios_error where
  "cursor_expired_400 =
     \<lparr>response = Some \<lparr>status = 400, data_code = Some ''CURSOR_EXPIRED'', retry_after = None\<rparr>,
      code = None\<rparr>"

definition too_many_requests :: "string \<Rightarrow> axios_error" where
  "too_many_requests hint =
     \<lparr>response = Some \<lparr>status = 429, data_code = Some ''RATE_LIMIT_EXCEEDED'', retry_after = Some hint\<rparr>,
      code = None\<rparr>"

definition empty_page :: FetchPageResult where
  "empty_page = \<lparr>page_data = [], hasMore = False, nextCursor = ''cur-end''\<rparr>"

definition forbidden_403 :: axios_error where
  "forbidden_403 = \<lparr>response = Some \<lparr>status = 403, data_code = None, retry_after = None\<rparr>, code = None\<rparr>"

section \<open>Properties of the record normaliser\<close>

lemma trunc_of_int: "trunc (of_int n) = n"
  by (simp add: trunc_def)

lemma iso_utc_sample: "iso_utc ''2026-01-27T19:19:13.629Z'' = Some 1769541553629"
  by code_simp

text \<open>
  C3, as stated, fails: a number is never read as epoch seconds. The millisecond value
  1769541612369 and the second value 1769541612 are both taken as milliseconds, and
  the two instants lie far more than one second apart.
\<close>

theorem numeric_timestamp_seconds_counterexample:
  "normalizeTimestamp no_other_dates (Num (Finite 1769541612369)) = Inr 1769541612369
   \<and> normalizeTimestamp no_other_dates (Num (Finite 1769541612)) = Inr 1769541612
   \<and> \<bar>1769541612369 - 1769541612 :: int\<bar> > 1000"
  by (simp add: normalizeTimestamp_def trunc_def)

text \<open>
  C3, amended: every finite numeric timestamp within the range of a \<^verbatim>\<open>Date\<close> is taken as
  epoch milliseconds, whatever its magnitude (a fraction of a millisecond is cut off, an
  integral value is kept as it is), and the string \<^verbatim>\<open>2026-01-27T19:19:13.629Z\<close>
  normalises to exactly the instant it denotes, 1769541553629 ms after the epoch.
\<close>

theorem numeric_timestamp_is_milliseconds:
  "(\<bar>q\<bar> \<le> 8640000000000000 \<longrightarrow> normalizeTimestamp other (Num (Finite q)) = Inr (trunc q))
   \<and> (\<bar>n\<bar> \<le> 8640000000000000 \<longrightarrow> normalizeTimestamp other (Num (Finite (of_int n))) = Inr n)
   \<and> normalizeTimestamp other (Str ''2026-01-27T19:19:13.629Z'')
        = Inr (MakeDate (MakeDay 2026 1 27) (MakeTime 19 19 13 629))
   \<and> MakeDate (MakeDay 2026 1 27) (MakeTime 19 19 13 629) = 1769541553629"
proof -
  have a: "MakeDate (MakeDay 2026 1 27) (MakeTime 19 19 13 629) = 1769541553629"
    by code_simp
  have g: "normalizeTimestamp other (Num (Finite q)) = Inr (trunc q)"
    if "\<bar>q\<bar> \<le> 8640000000000000"
    using that by (simp add: normalizeTimestamp_def)
  have b: "normalizeTimestamp other (Num (Finite (of_int n))) = Inr n"
    if h: "\<bar>n\<bar> \<le> 8640000000000000"
  proof -
    have "\<bar>of_int n :: rat\<bar> = of_int \<bar>n\<bar>" by simp
    also have "\<dots> \<le> of_int 8640000000000000" using h by (simp only: of_int_le_iff)
    finally have "\<not> \<bar>of_int n :: rat\<bar> > 8640000000000000" by simp
    then show ?thesis by (simp add: normalizeTimestamp_def trunc_of_int)
  qed
  have c: "normalizeTimestamp other (Str ''2026-01-27T19:19:13.629Z'') = Inr 1769541553629"
    by (simp add: normalizeTimestamp_def Date_parse_def iso_utc_sample trunc_def)
  show ?thesis using a g b c by simp
qed

theorem numeric_timestamp_is_milliseconds_witness:
  "\<bar>1769541612 :: int\<bar> \<le> 8640000000000000
   \<and> normalizeTimestamp no_other_dates (Num (Finite (of_int 1769541612))) = Inr 1769541612
   \<and> normalizeTimestamp no_other_dates (Str ''2026-01-27T19:19:13.629Z'') = Inr 1769541553629"
  using numeric_timestamp_is_milliseconds [of 1769541612 no_other_dates 1769541612]
  by (simp add: trunc_def)

text \<open>
  C9: the number 0 and the empty string are falsy; a record with an identifier whose
  timestamp field is falsy is transformed successfully into a row with a null
  timestamp; and whenever a row carries a timestamp, the field was truthy and the
  timestamp is what \<^verbatim>\<open>normalizeTimestamp\<close> made of it.
\<close>

theorem falsy_timestamp_is_null:
  assumes "raw_id raw = Some i" and "i \<noteq> []"
  shows "\<not> truthy (Num (Finite 0)) \<and> \<not> truthy (Str [])
         \<and> (\<not> truthy (raw_timestamp raw) \<longrightarrow>
            (\<exists>row. transformEvent other raw = Inr row \<and> timestamp row = None
                    \<and> row_id row = i \<and> data row = raw))
         \<and> (\<forall>row t. transformEvent other raw = Inr row \<and> timestamp row = Some t \<longrightarrow>
               truthy (raw_timestamp raw) \<and> normalizeTimestamp other (raw_timestamp raw) = Inr t)"
  using assms by (auto simp: transformEvent_def Let_def split: sum.splits if_splits)

theorem falsy_timestamp_is_null_witness:
  "raw_id ((sample_event ''evt-1'')\<lparr>raw_timestamp := Num (Finite 0)\<rparr>) = Some ''evt-1''
   \<and> ''evt-1'' \<noteq> []
   \<and> transformEvent no_other_dates ((sample_event ''evt-1'')\<lparr>raw_timestamp := Num (Finite 0)\<rparr>)
       = Inr ((sample_row ''evt-1'')\<lparr>timestamp := None,
                data := (sample_event ''evt-1'')\<lparr>raw_timestamp := Num (Finite 0)\<rparr>\<rparr>)
   \<and> transformEvent no_other_dates ((sample_event ''evt-1'')\<lparr>raw_timestamp := Str []\<rparr>)
       = Inr ((sample_row ''evt-1'')\<lparr>timestamp := None,
                data := (sample_event ''evt-1'')\<lparr>raw_timestamp := Str []\<rparr>\<rparr>)"
  using falsy_timestamp_is_null
          [of "(sample_event ''evt-1'')\<lparr>raw_timestamp := Num (Finite 0)\<rparr>" "''evt-1''" no_other_dates]
        falsy_timestamp_is_null
          [of "(sample_event ''evt-1'')\<lparr>raw_timestamp := Str []\<rparr>" "''evt-1''" no_other_dates]
  by (auto simp: sample_event_def sample_row_def transformEvent_def)

section \<open>Properties of the batch writer\<close>

text \<open>
  C2, as stated, fails: a flush that fails leaves the buffer empty, not holding the rows
  of the failed batch.
\<close>

theorem failed_flush_keeps_rows_counterexample:
  "fst (flush (fresh_world\<lparr>buffer := [sample_row ''1''], faults := [DbFails ''boom'']\<rparr>))
     = Inl (DbError ''boom'')
   \<and> buffer (snd (flush (fresh_world\<lparr>buffer := [sample_row ''1''], faults := [DbFails ''boom'']\<rparr>)))
     \<noteq> [sample_row ''1'']"
  by (simp add: flush_def next_outcome_def emit_def fresh_world_def)

text \<open>
  C2, amended: a flush that fails is all-or-nothing (the database is left as it was), but
  the buffer was emptied before the transaction began: after the failure it is empty, and
  a second \<^verbatim>\<open>flush()\<close> does nothing.
\<close>

theorem failed_flush_rolls_back_and_empties_buffer:
  assumes "buffer w \<noteq> []" and "faults w = DbFails msg # fs"
  shows "fst (flush w) = Inl (DbError msg) \<and> db (snd (flush w)) = db w
    \<and> buffer (snd (flush w)) = []
    \<and> flush (snd (flush w)) = (Inr (), snd (flush w))"
  using assms by (simp add: flush_def next_outcome_def emit_def)

theorem failed_flush_rolls_back_and_empties_buffer_witness:
  "buffer (fresh_world\<lparr>buffer := [sample_row ''1''], faults := [DbFails ''boom'']\<rparr>) \<noteq> []
   \<and> faults (fresh_world\<lparr>buffer := [sample_row ''1''], faults := [DbFails ''boom'']\<rparr>)
        = DbFails ''boom'' # []
   \<and> db (snd (flush (fresh_world\<lparr>buffer := [sample_row ''1''], faults := [DbFails ''boom'']\<rparr>)))
        = db fresh_world
   \<and> buffer (snd (flush (fresh_world\<lparr>buffer := [sample_row ''1''], faults := [DbFails ''boom'']\<rparr>))) = []"
  using failed_flush_rolls_back_and_empties_buffer
          [of "fresh_world\<lparr>buffer := [sample_row ''1''], faults := [DbFails ''boom'']\<rparr>" "''boom''" "[]"]
  by (simp add: fresh_world_def)

lemma isc_ids:
  "set (map row_id (insert_skip_conflict dest rs)) = set (map row_id dest) \<union> set (map row_id rs)"
  by (induction rs arbitrary: dest) auto

lemma isc_distinct:
  "distinct (map row_id dest) \<Longrightarrow> distinct (map row_id (insert_skip_conflict dest rs))"
  by (induction rs arbitrary: dest) auto

lemma isc_append:
  "insert_skip_conflict dest (xs @ ys) = insert_skip_conflict (insert_skip_conflict dest xs) ys"
  by (induction xs arbitrary: dest) auto

lemma isc_noop:
  "set (map row_id rs) \<subseteq> set (map row_id dest) \<Longrightarrow> insert_skip_conflict dest rs = dest"
  by (induction rs arbitrary: dest) auto

lemma one_row_per_id:
  "distinct (map row_id rows) \<Longrightarrow> i \<in> set (map row_id rows)
     \<Longrightarrow> length (filter (\<lambda>r. row_id r = i) rows) = 1"
proof (induction rows)
  case Nil
  then show ?case by simp
next
  case (Cons r rows)
  show ?case
  proof (cases "row_id r = i")
    case True
    with Cons.prems have "i \<notin> set (map row_id rows)" by auto
    then have "filter (\<lambda>r. row_id r = i) rows = []" by (auto simp: filter_empty_conv)
    with True show ?thesis by simp
  next
    case False
    with Cons show ?thesis by auto
  qed
qed

lemma flush_quiet:
  assumes "quiet w"
  shows "\<exists>w'. flush w = (Inr (), w') \<and> quiet w' \<and> buffer w' = []
           \<and> cursor_state (db w') = cursor_state (db w)
           \<and> ingested_events (db w') = insert_skip_conflict (ingested_events (db w)) (buffer w)"
  using assms
  by (auto simp: quiet_def flush_def next_outcome_def emit_def stage_def upsert_def truncate_staging_def)

lemma add_quiet:
  assumes "quiet w"
  shows "\<exists>w'. add bs rows w = (Inr (), w') \<and> quiet w'
           \<and> cursor_state (db w') = cursor_state (db w)
           \<and> insert_skip_conflict (ingested_events (db w')) (buffer w')
               = insert_skip_conflict (ingested_events (db w)) (buffer w @ rows)"
  using assms
proof (induction rows arbitrary: w)
  case Nil
  then show ?case by simp
next
  case (Cons r rows)
  show ?case
  proof (cases "length (buffer w @ [r]) \<ge> bs")
    case True
    have q: "quiet (w\<lparr>buffer := buffer w @ [r]\<rparr>)" using Cons.prems by (simp add: quiet_def)
    from flush_quiet [OF q] obtain w1 where
      f: "flush (w\<lparr>buffer := buffer w @ [r]\<rparr>) = (Inr (), w1)" and q1: "quiet w1" and b1: "buffer w1 = []"
      and c1: "cursor_state (db w1) = cursor_state (db w)"
      and i1: "ingested_events (db w1) = insert_skip_conflict (ingested_events (db w)) (buffer w @ [r])"
      by auto
    from Cons.IH [OF q1] obtain w' where
      a: "add bs rows w1 = (Inr (), w')" and q': "quiet w'"
      and c': "cursor_state (db w') = cursor_state (db w1)"
      and i': "insert_skip_conflict (ingested_events (db w')) (buffer w')
               = insert_skip_conflict (ingested_events (db w1)) (buffer w1 @ rows)"
      by auto
    have "insert_skip_conflict (ingested_events (db w')) (buffer w')
            = insert_skip_conflict (ingested_events (db w)) (buffer w @ r # rows)"
      using i' i1 b1 isc_append [of "ingested_events (db w)" "buffer w @ [r]" rows] by simp
    with True f a q' c' c1 show ?thesis by simp
  next
    case False
    have q: "quiet (w\<lparr>buffer := buffer w @ [r]\<rparr>)" using Cons.prems by (simp add: quiet_def)
    from Cons.IH [OF q] obtain w' where
      a: "add bs rows (w\<lparr>buffer := buffer w @ [r]\<rparr>) = (Inr (), w')" and q': "quiet w'"
      and c': "cursor_state (db w') = cursor_state (db w)"
      and i': "insert_skip_conflict (ingested_events (db w')) (buffer w')
               = insert_skip_conflict (ingested_events (db w)) ((buffer w @ [r]) @ rows)"
      by auto
    with False show ?thesis by simp
  qed
qed

lemma add_then_flush_quiet:
  assumes "quiet w"
  shows "\<exists>w'. add_then_flush bs rows w = (Inr (), w') \<and> quiet w' \<and> buffer w' = []
           \<and> cursor_state (db w') = cursor_state (db w)
           \<and> ingested_events (db w') = insert_skip_conflict (ingested_events (db w)) (buffer w @ rows)"
proof -
  from add_quiet [OF assms] obtain w1 where
    a: "add bs rows w = (Inr (), w1)" and q1: "quiet w1"
    and c1: "cursor_state (db w1) = cursor_state (db w)"
    and i1: "insert_skip_conflict (ingested_events (db w1)) (buffer w1)
               = insert_skip_conflict (ingested_events (db w)) (buffer w @ rows)"
    by blast
  from flush_quiet [OF q1] obtain w' where
    f: "flush w1 = (Inr (), w')" and "quiet w'" "buffer w' = []"
    "cursor_state (db w') = cursor_state (db w1)"
    "ingested_events (db w') = insert_skip_conflict (ingested_events (db w1)) (buffer w1)"
    by blast
  with a c1 i1 show ?thesis by (simp add: add_then_flush_def)
qed

text \<open>
  C4: writing the same rows twice into a store whose database does not fail, by
  \<^verbatim>\<open>add\<close> and \<^verbatim>\<open>flush\<close> each time, succeeds both times; the second write leaves the
  destination table as the first one made it; the table holds exactly one row for each id
  of the rows; and when it was empty before, its size is the number of distinct ids.
\<close>

theorem idempotent_merge:
  assumes "faults w = []" and "staging_events (db w) = []" and "buffer w = []"
    and "distinct (map row_id (ingested_events (db w)))"
  shows "\<exists>w1 w2. add_then_flush bs S w = (Inr (), w1) \<and> add_then_flush bs S w1 = (Inr (), w2)
           \<and> ingested_events (db w2) = ingested_events (db w1)
           \<and> (\<forall>i \<in> set (map row_id S). length (filter (\<lambda>r. row_id r = i) (ingested_events (db w2))) = 1)
           \<and> (ingested_events (db w) = [] \<longrightarrow>
                length (ingested_events (db w2)) = card (set (map row_id S)))"
proof -
  have q: "quiet w" using assms by (simp add: quiet_def)
  from add_then_flush_quiet [OF q, of bs S] obtain w1 where
    f1: "add_then_flush bs S w = (Inr (), w1)" and q1: "quiet w1" and b1: "buffer w1 = []"
    and i1: "ingested_events (db w1) = insert_skip_conflict (ingested_events (db w)) S"
    using assms(3) by auto
  from add_then_flush_quiet [OF q1, of bs S] obtain w2 where
    f2: "add_then_flush bs S w1 = (Inr (), w2)"
    and i2: "ingested_events (db w2) = insert_skip_conflict (ingested_events (db w1)) S"
    using b1 by auto
  have sub: "set (map row_id S) \<subseteq> set (map row_id (ingested_events (db w1)))"
    unfolding i1 isc_ids by blast
  have same: "ingested_events (db w2) = ingested_events (db w1)"
    unfolding i2 using sub by (rule isc_noop)
  have d: "distinct (map row_id (ingested_events (db w2)))"
    unfolding same i1 using assms(4) by (rule isc_distinct)
  have one: "\<forall>i \<in> set (map row_id S). length (filter (\<lambda>r. row_id r = i) (ingested_events (db w2))) = 1"
    using d sub same one_row_per_id by auto
  have cnt: "length (ingested_events (db w2)) = card (set (map row_id S))" if "ingested_events (db w) = []"
  proof -
    have "length (ingested_events (db w2)) = length (map row_id (ingested_events (db w2)))" by simp
    also have "\<dots> = card (set (map row_id (ingested_events (db w2))))"
      using d by (simp only: distinct_card)
    also have "\<dots> = card (set (map row_id S))"
      unfolding same i1 isc_ids using that by simp
    finally show ?thesis .
  qed
  from f1 f2 same one cnt show ?thesis by blast
qed

theorem idempotent_merge_witness:
  "faults fresh_world = [] \<and> staging_events (db fresh_world) = [] \<and> buffer fresh_world = []
   \<and> distinct (map row_id (ingested_events (db fresh_world)))
   \<and> (\<exists>w1 w2. add_then_flush 2 [sample_row ''a'', sample_row ''b'', sample_row ''a''] fresh_world = (Inr (), w1)
        \<and> add_then_flush 2 [sample_row ''a'', sample_row ''b'', sample_row ''a''] w1 = (Inr (), w2)
        \<and> length (ingested_events (db w2)) = 2)"
proof -
  have c: "card (set (map row_id [sample_row ''a'', sample_row ''b'', sample_row ''a''])) = 2"
    by (simp add: sample_row_def card_insert_if)
  show ?thesis
    using idempotent_merge [of fresh_world 2 "[sample_row ''a'', sample_row ''b'', sample_row ''a'']"] c
    by (auto simp: fresh_world_def)
qed

section \<open>Properties of the fetch client\<close>

lemma transient_step:
  assumes "transient err" and "attempt < 3"
  shows "fetchLoop tok limit attempt cur par (Rejected err # rest) =
     then_events [Get (endpoint tok) limit par, Delay (Some (2 ^ (attempt + 1) * 500))]
       (fetchLoop tok limit (attempt + 1) cur par rest)"
  using assms
  by (auto simp: transient_def status_of_def isNetworkError_def isServerError_def maxRetries_def
        then_events_def cursorExpired_def split: option.splits prod.splits)

lemma transient_last:
  assumes "transient err"
  shows "fetchLoop tok limit 3 cur par (Rejected err # rest) =
     (Some (Inl (Axios err)), rest, [Get (endpoint tok) limit par])"
  using assms
  by (auto simp: transient_def status_of_def isNetworkError_def isServerError_def maxRetries_def
        then_events_def cursorExpired_def split: option.splits prod.splits)

text \<open>
  C6: when the first four requests of a call all fail transiently, \<^verbatim>\<open>fetchPage\<close> makes
  exactly these four requests, waits 1000, 2000 and 4000 ms between them, and throws the
  fourth failure; whatever the source would have answered afterwards is not asked for.
\<close>

theorem retry_exhaustion_after_four_attempts:
  assumes "transient e1" "transient e2" "transient e3" "transient e4"
  shows "fetchPage tok limit cur (Rejected e1 # Rejected e2 # Rejected e3 # Rejected e4 # rest) =
     (Some (Inl (Axios e4)), rest,
      [Get (endpoint tok) limit (if cursor_given cur then cur else None), Delay (Some 1000),
       Get (endpoint tok) limit (if cursor_given cur then cur else None), Delay (Some 2000),
       Get (endpoint tok) limit (if cursor_given cur then cur else None), Delay (Some 4000),
       Get (endpoint tok) limit (if cursor_given cur then cur else None)])"
proof -
  define par where "par = (if cursor_given cur then cur else None)"
  have s4: "fetchLoop tok limit 3 cur par (Rejected e4 # rest)
      = (Some (Inl (Axios e4)), rest, [Get (endpoint tok) limit par])"
    using assms(4) by (rule transient_last)
  have s3: "fetchLoop tok limit 2 cur par (Rejected e3 # Rejected e4 # rest)
      = then_events [Get (endpoint tok) limit par, Delay (Some (2 ^ (2 + 1) * 500))]
          (fetchLoop tok limit (2 + 1) cur par (Rejected e4 # rest))"
    using assms(3) by (rule transient_step) simp
  have s2: "fetchLoop tok limit 1 cur par (Rejected e2 # Rejected e3 # Rejected e4 # rest)
      = then_events [Get (endpoint tok) limit par, Delay (Some (2 ^ (1 + 1) * 500))]
          (fetchLoop tok limit (1 + 1) cur par (Rejected e3 # Rejected e4 # rest))"
    using assms(2) by (rule transient_step) simp
  have s1: "fetchLoop tok limit 0 cur par (Rejected e1 # Rejected e2 # Rejected e3 # Rejected e4 # rest)
      = then_events [Get (endpoint tok) limit par, Delay (Some (2 ^ (0 + 1) * 500))]
          (fetchLoop tok limit (0 + 1) cur par (Rejected e2 # Rejected e3 # Rejected e4 # rest))"
    using assms(1) by (rule transient_step) simp
  have n: "(2::nat) + 1 = 3" "(1::nat) + 1 = 2" "(0::nat) + 1 = 1" by simp_all
  show ?thesis
    unfolding fetchPage_def par_def [symmetric] s1 n s2 s3 s4
    by (simp add: then_events_def)
qed

theorem retry_exhaustion_after_four_attempts_witness:
  "transient server_error_500 \<and> transient timeout_error
   \<and> fetchPage False 5000 None
        [Rejected server_error_500, Rejected timeout_error, Rejected server_error_500,
         Rejected timeout_error, Resolved single_page]
     = (Some (Inl (Axios timeout_error)), [Resolved single_page],
        [Get ''/events'' 5000 None, Delay (Some 1000), Get ''/events'' 5000 None, Delay (Some 2000),
         Get ''/events'' 5000 None, Delay (Some 4000), Get ''/events'' 5000 None])"
  using retry_exhaustion_after_four_attempts
          [of server_error_500 timeout_error server_error_500 timeout_error False 5000 None
              "[Resolved single_page]"]
  by (simp add: transient_def server_error_500_def timeout_error_def endpoint_def baseEndpoint_def
        cursor_given_def)

lemma digit_char: "d < 10 \<Longrightarrow> digit_of (char_of (48 + d)) = Some d"
  by (simp add: digit_of_def Let_def)

lemma digit_not_space: "is_digit c \<Longrightarrow> \<not> is_space c"
  by (auto simp: is_digit_def digit_of_def is_space_def Let_def split: if_splits)

lemma digit_not_sign: "is_digit c \<Longrightarrow> c \<noteq> CHR ''-'' \<and> c \<noteq> CHR ''+''"
  by (auto simp: is_digit_def digit_of_def Let_def split: if_splits)

lemma digits_value_snoc:
  "digits_value acc (cs @ [c]) = 10 * digits_value acc cs + (case digit_of c of Some d \<Rightarrow> d | None \<Rightarrow> 0)"
  by (induction cs arbitrary: acc) auto

lemma decimal_digits: "decimal k \<noteq> [] \<and> list_all is_digit (decimal k)"
proof (induction k rule: decimal.induct)
  case (1 n)
  show ?case
  proof (cases "n < 10")
    case True
    then show ?thesis by (subst (1 2) decimal.simps) (simp add: is_digit_def digit_char)
  next
    case False
    have "n mod 10 < 10" by simp
    then have "is_digit (char_of (48 + n mod 10))" by (simp only: is_digit_def digit_char) simp
    with False "1.IH" show ?thesis by (subst (1 2) decimal.simps) simp
  qed
qed

lemma decimal_value: "digits_value 0 (decimal k) = k"
proof (induction k rule: decimal.induct)
  case (1 n)
  show ?case
  proof (cases "n < 10")
    case True
    then show ?thesis by (subst decimal.simps) (simp add: digit_char)
  next
    case False
    have d: "digit_of (char_of (48 + n mod 10)) = Some (n mod 10)" by (rule digit_char) simp
    from False "1.IH" have "digits_value 0 (decimal (n div 10)) = n div 10" by simp
    with False d show ?thesis
      by (subst decimal.simps) (simp add: digits_value_snoc)
  qed
qed

lemma parseInt_digits:
  assumes "s \<noteq> []" and "list_all is_digit s"
  shows "parseInt s = Some (int (digits_value 0 s))"
proof -
  obtain c cs where s: "s = c # cs" using assms(1) by (cases s) auto
  with assms(2) have c: "is_digit c" by simp
  have t: "dropWhile is_space s = s" using s c digit_not_space by simp
  have w: "takeWhile is_digit s = s" using assms(2) by (simp add: list_all_iff)
  have h: "hd s \<noteq> CHR ''-''" "hd s \<noteq> CHR ''+''" using s digit_not_sign [OF c] by simp_all
  have u: "(if s \<noteq> [] \<and> (hd s = CHR ''-'' \<or> hd s = CHR ''+'') then tl s else s) = s"
    using h by simp
  show ?thesis
    unfolding parseInt_def Let_def t u w using assms(1) h by simp
qed

lemma parseInt_decimal: "parseInt (decimal k) = Some (int k)"
  using parseInt_digits [of "decimal k"] decimal_digits [of k] decimal_value [of k] by simp

lemma rate_limited_step:
  assumes "rate_limited err"
  shows "fetchLoop tok limit attempt cur par (Rejected err # rest) =
     (case fetchLoop tok limit attempt cur par rest of
        (res, left, evs) \<Rightarrow>
          (res, left,
           [Get (endpoint tok) limit par,
            Warn (RateLimitedWarning (map_option (\<lambda>n. n + 1) (parseInt (retryAfterHeader err)))),
            Delay (map_option (\<lambda>n. (n + 1) * 1000) (parseInt (retryAfterHeader err)))] @ evs))"
  using assms
  by (auto simp: rate_limited_def status_of_def then_events_def split: prod.splits option.splits)

lemma hinted_step:
  assumes "rate_limit_response err (Some (decimal k))"
  shows "fetchLoop tok limit attempt cur par (Rejected err # rest) =
     (case fetchLoop tok limit attempt cur par rest of
        (res, left, evs) \<Rightarrow>
          (res, left,
           [Get (endpoint tok) limit par, Warn (RateLimitedWarning (Some (int k + 1))),
            Delay (Some ((int k + 1) * 1000))] @ evs))"
proof -
  from assms have r: "rate_limited err" and h: "retryAfterHeader err = decimal k"
    by (auto simp: rate_limit_response_def rate_limited_def retryAfterHeader_def split: option.splits)
  show ?thesis
    unfolding rate_limited_step [OF r] h parseInt_decimal by simp
qed

lemma unhinted_step:
  assumes "rate_limit_response err None"
  shows "fetchLoop tok limit attempt cur par (Rejected err # rest) =
     (case fetchLoop tok limit attempt cur par rest of
        (res, left, evs) \<Rightarrow>
          (res, left,
           [Get (endpoint tok) limit par, Warn (RateLimitedWarning (Some 61)),
            Delay (Some 61000)] @ evs))"
proof -
  from assms have r: "rate_limited err" and h: "retryAfterHeader err = ''60''"
    by (auto simp: rate_limit_response_def rate_limited_def retryAfterHeader_def split: option.splits)
  have p: "parseInt ''60'' = Some 60" by code_simp
  show ?thesis
    unfolding rate_limited_step [OF r] h p by simp
qed

lemma hinted_run:
  assumes "list_all2 (\<lambda>e k. rate_limit_response e (Some (decimal k))) errs ks"
  shows "fetchLoop tok limit attempt cur par (map Rejected errs @ rest) =
     (case fetchLoop tok limit attempt cur par rest of
        (res, left, evs) \<Rightarrow>
          (res, left,
           concat (map (\<lambda>k. [Get (endpoint tok) limit par, Warn (RateLimitedWarning (Some (int k + 1))),
                              Delay (Some ((int k + 1) * 1000))]) ks) @ evs))"
  using assms
proof (induction errs ks rule: list_all2_induct)
  case Nil
  show ?case by (simp split: prod.splits)
next
  case (Cons err k errs ks)
  show ?case
    by (simp add: hinted_step [OF Cons.hyps(1)] Cons.IH split: prod.splits del: fetchLoop.simps)
qed

lemma absorbed_run:
  assumes "\<forall>e \<in> set errs. rate_limited e"
  shows "fst (fetchLoop tok limit attempt cur par (map Rejected errs @ rest))
           = fst (fetchLoop tok limit attempt cur par rest)
       \<and> fst (snd (fetchLoop tok limit attempt cur par (map Rejected errs @ rest)))
           = fst (snd (fetchLoop tok limit attempt cur par rest))"
  using assms
proof (induction errs)
  case Nil
  show ?case by simp
next
  case (Cons err errs)
  then have "rate_limited err" and "\<forall>e \<in> set errs. rate_limited e" by simp_all
  then show ?case
    using Cons.IH rate_limited_step [of err tok limit attempt cur par "map Rejected errs @ rest"]
    by (simp split: prod.splits del: fetchLoop.simps)
qed

lemma never_throws_rate_limit:
  "fetchLoop tok limit attempt cur par script = (Some (Inl e), rest, evs) \<Longrightarrow> e = Axios err
     \<Longrightarrow> \<not> rate_limited err"
proof (induction tok limit attempt cur par script arbitrary: rest evs rule: fetchLoop.induct)
  case (4 tok limit attempt cur par err' others)
  then show ?case
    by (auto simp: then_events_def rate_limited_def status_of_def split: if_splits prod.splits option.splits)
qed auto

text \<open>
  C7: a fetch attempt answered with status 429 is absorbed inside the call. When the
  \<^verbatim>\<open>retry-after\<close> header of that response is the decimal text of \<open>k\<close> seconds, \<^verbatim>\<open>fetchPage\<close>
  warns, sleeps \<open>(k + 1) * 1000\<close> ms and makes the next request of the same call, retry
  counter and cursor untouched; when the header is absent it does the same with 60
  seconds. After any number of such attempts in a row the page that follows is
  returned, with exactly these sleeps in between. Whatever the headers say (also one
  that is no number, which is not a hint in seconds), rate-limited attempts in a row do
  not keep the page that follows from being returned; and no error that \<^verbatim>\<open>fetchPage\<close>
  throws is a response with status 429.
\<close>

theorem rate_limit_is_absorbed:
  "(rate_limit_response err (Some (decimal k)) \<longrightarrow>
      fetchLoop tok limit attempt cur par (Rejected err # rest) =
        (case fetchLoop tok limit attempt cur par rest of
           (res, left, evs) \<Rightarrow>
             (res, left,
              [Get (endpoint tok) limit par, Warn (RateLimitedWarning (Some (int k + 1))),
               Delay (Some ((int k + 1) * 1000))] @ evs)))
   \<and> (rate_limit_response err None \<longrightarrow>
      fetchLoop tok limit attempt cur par (Rejected err # rest) =
        (case fetchLoop tok limit attempt cur par rest of
           (res, left, evs) \<Rightarrow>
             (res, left,
              [Get (endpoint tok) limit par, Warn (RateLimitedWarning (Some 61)),
               Delay (Some 61000)] @ evs)))
   \<and> (list_all2 (\<lambda>e k. rate_limit_response e (Some (decimal k))) errs ks \<longrightarrow>
        fetchPage tok limit cur (map Rejected errs @ Resolved page # rest) =
          (Some (Inr page), rest,
           concat (map (\<lambda>k. [Get (endpoint tok) limit (if cursor_given cur then cur else None),
                              Warn (RateLimitedWarning (Some (int k + 1))),
                              Delay (Some ((int k + 1) * 1000))]) ks)
             @ [Get (endpoint tok) limit (if cursor_given cur then cur else None)]))
   \<and> ((\<forall>e \<in> set errs'. rate_limited e) \<longrightarrow>
        fst (fetchPage tok limit cur (map Rejected errs' @ Resolved page # rest)) = Some (Inr page)
        \<and> fst (snd (fetchPage tok limit cur (map Rejected errs' @ Resolved page # rest))) = rest)
   \<and> (\<forall>e left evs. fetchPage tok limit cur script = (Some (Inl (Axios e)), left, evs)
         \<longrightarrow> \<not> rate_limited e)"
proof -
  have a: "rate_limit_response err (Some (decimal k)) \<longrightarrow>
      fetchLoop tok limit attempt cur par (Rejected err # rest) =
        (case fetchLoop tok limit attempt cur par rest of
           (res, left, evs) \<Rightarrow>
             (res, left,
              [Get (endpoint tok) limit par, Warn (RateLimitedWarning (Some (int k + 1))),
               Delay (Some ((int k + 1) * 1000))] @ evs))"
    using hinted_step by blast
  have b: "rate_limit_response err None \<longrightarrow>
      fetchLoop tok limit attempt cur par (Rejected err # rest) =
        (case fetchLoop tok limit attempt cur par rest of
           (res, left, evs) \<Rightarrow>
             (res, left,
              [Get (endpoint tok) limit par, Warn (RateLimitedWarning (Some 61)),
               Delay (Some 61000)] @ evs))"
    using unhinted_step by blast
  have c: "list_all2 (\<lambda>e k. rate_limit_response e (Some (decimal k))) errs ks \<longrightarrow>
        fetchPage tok limit cur (map Rejected errs @ Resolved page # rest) =
          (Some (Inr page), rest,
           concat (map (\<lambda>k. [Get (endpoint tok) limit (if cursor_given cur then cur else None),
                              Warn (RateLimitedWarning (Some (int k + 1))),
                              Delay (Some ((int k + 1) * 1000))]) ks)
             @ [Get (endpoint tok) limit (if cursor_given cur then cur else None)])"
    unfolding fetchPage_def by (simp add: hinted_run)
  have d: "(\<forall>e \<in> set errs'. rate_limited e) \<longrightarrow>
        fst (fetchPage tok limit cur (map Rejected errs' @ Resolved page # rest)) = Some (Inr page)
        \<and> fst (snd (fetchPage tok limit cur (map Rejected errs' @ Resolved page # rest))) = rest"
    unfolding fetchPage_def by (simp add: absorbed_run)
  have e: "\<forall>e left evs. fetchPage tok limit cur script = (Some (Inl (Axios e)), left, evs)
         \<longrightarrow> \<not> rate_limited e"
    unfolding fetchPage_def using never_throws_rate_limit by blast
  from a b c d e show ?thesis by blast
qed

theorem rate_limit_is_absorbed_witness:
  "rate_limit_response (too_many_requests ''28'') (Some (decimal 28))
   \<and> rate_limit_response (too_many_requests ''5'') (Some (decimal 5))
   \<and> fetchPage False 5000 (Some ''cur-1'')
        [Rejected (too_many_requests ''28''), Rejected (too_many_requests ''5''), Resolved single_page]
      = (Some (Inr single_page), [],
         [Get ''/events'' 5000 (Some ''cur-1''), Warn (RateLimitedWarning (Some 29)), Delay (Some 29000),
          Get ''/events'' 5000 (Some ''cur-1''), Warn (RateLimitedWarning (Some 6)), Delay (Some 6000),
          Get ''/events'' 5000 (Some ''cur-1'')])"
proof -
  have d: "decimal 28 = ''28''" "decimal 5 = ''5''" by code_simp+
  have r: "rate_limit_response (too_many_requests ''28'') (Some (decimal 28))"
    "rate_limit_response (too_many_requests ''5'') (Some (decimal 5))"
    unfolding d by (simp_all add: rate_limit_response_def too_many_requests_def)
  then have l: "list_all2 (\<lambda>e k. rate_limit_response e (Some (decimal k)))
                  [too_many_requests ''28'', too_many_requests ''5''] [28, 5]"
    by simp
  show ?thesis
    using r l rate_limit_is_absorbed
                [of "too_many_requests ''28''" 28 False 5000 0 "Some ''cur-1''" "Some ''cur-1''" "[]"
                    "[too_many_requests ''28'', too_many_requests ''5'']" "[28, 5]" single_page]
    by (simp add: endpoint_def baseEndpoint_def cursor_given_def)
qed

lemma empty_cursor_loop:
  "fetchLoop tok limit attempt (Some []) None script = fetchLoop tok limit attempt None None script"
  by (induction tok limit attempt "None :: string option" "None :: string option" script
      rule: fetchLoop.induct)
     (auto simp: cursor_given_def then_events_def split: prod.splits)

lemma empty_cursor_is_no_cursor:
  "fetchPage tok limit (Some []) script = fetchPage tok limit None script"
  by (simp add: fetchPage_def cursor_given_def empty_cursor_loop)

text \<open>
  C8, as stated, fails: after the expired cursor is cleared, the retry is a request like
  any other, and when the source answers it with 403 the caller gets an error, not a
  page.
\<close>

theorem expired_cursor_retry_forbidden_counterexample:
  "fetchPage False 5000 (Some ''cur-5'') [Rejected cursor_expired_400, Rejected forbidden_403]
     = (Some (Inl (AuthError 403)), [],
        [Get ''/events'' 5000 (Some ''cur-5''), Warn CursorExpiredWarning, Get ''/events'' 5000 None])"
  by (simp add: fetchPage_def cursor_given_def cursor_expired_400_def forbidden_403_def status_of_def
        cursorExpired_def then_events_def endpoint_def baseEndpoint_def)

text \<open>
  C8, amended: when a fetch made with a supplied cursor (a string that is not empty; an
  empty one is not sent, see \<open>empty_cursor_is_no_cursor\<close>) is rejected with status 400
  and code \<^verbatim>\<open>CURSOR_EXPIRED\<close>, \<^verbatim>\<open>fetchPage\<close> warns and goes on with the same call without
  a cursor, at once and with the retry counter untouched; when the next request is
  answered with a page, the caller gets that page, after two requests and one warning.
\<close>

theorem expired_cursor_is_cleared_and_retried:
  assumes "cur = Some c" and "c \<noteq> []"
    and "response err = Some r" and "status r = 400" and "data_code r = Some ''CURSOR_EXPIRED''"
  shows "fetchPage tok limit cur (Rejected err # rest) =
           (case fetchLoop tok limit 0 None None rest of
              (res, left, evs) \<Rightarrow>
                (res, left, [Get (endpoint tok) limit (Some c), Warn CursorExpiredWarning] @ evs))
         \<and> fetchPage tok limit cur (Rejected err # Resolved page # rest) =
           (Some (Inr page), rest,
            [Get (endpoint tok) limit (Some c), Warn CursorExpiredWarning, Get (endpoint tok) limit None])"
  using assms
  by (simp add: fetchPage_def then_events_def cursor_given_def status_of_def cursorExpired_def
        split: prod.splits)

theorem expired_cursor_is_cleared_and_retried_witness:
  "Some ''cur-5'' = Some ''cur-5'' \<and> ''cur-5'' \<noteq> []
   \<and> response cursor_expired_400
        = Some \<lparr>status = 400, data_code = Some ''CURSOR_EXPIRED'', retry_after = None\<rparr>
   \<and> fetchPage True 40000 (Some ''cur-5'') [Rejected cursor_expired_400, Resolved single_page] =
           (Some (Inr single_page), [],
            [Get ''/events/d4ta/x7k9/feed'' 40000 (Some ''cur-5''), Warn CursorExpiredWarning,
             Get ''/events/d4ta/x7k9/feed'' 40000 None])"
  using expired_cursor_is_cleared_and_retried [of "Some ''cur-5''" "''cur-5''" cursor_expired_400
              "\<lparr>status = 400, data_code = Some ''CURSOR_EXPIRED'', retry_after = None\<rparr>"
              True 40000 "[]" single_page]
  by (simp add: cursor_expired_400_def endpoint_def streamEndpoint_def)

section \<open>Properties of the orchestrator\<close>

lemma saveCursor_null: "cursor st = None \<Longrightarrow> saveCursor st w = (Inr (), w)"
  by (simp add: saveCursor_def)

lemma flush_cursor_state: "cursor_state (db (snd (flush w))) = cursor_state (db w)"
  by (auto simp: flush_def next_outcome_def emit_def stage_def upsert_def truncate_staging_def
        split: list.splits db_outcome.splits)

lemma add_cursor_state: "cursor_state (db (snd (add bs rows w))) = cursor_state (db w)"
proof (induction rows arbitrary: w)
  case Nil
  show ?case by simp
next
  case (Cons r rows)
  show ?case
  proof (cases "length (buffer w @ [r]) \<ge> bs")
    case True
    obtain res w1 where f: "flush (w\<lparr>buffer := buffer w @ [r]\<rparr>) = (res, w1)" by (cases "flush (w\<lparr>buffer := buffer w @ [r]\<rparr>)")
    have c1: "cursor_state (db w1) = cursor_state (db w)"
      using flush_cursor_state [of "w\<lparr>buffer := buffer w @ [r]\<rparr>"] f by simp
    show ?thesis
    proof (cases res)
      case (Inl e)
      with True f c1 show ?thesis by simp
    next
      case (Inr u)
      with True f c1 Cons.IH [of w1] show ?thesis by simp
    qed
  next
    case False
    with Cons.IH [of "w\<lparr>buffer := buffer w @ [r]\<rparr>"] show ?thesis by simp
  qed
qed

lemma processPage_null_cursor:
  assumes "processPage p limit page st w = (eo, st1, w1)" and "cursor st1 = None"
  shows "cursor st = None \<and> cursor_state (db w1) = cursor_state (db w)"
proof (cases "length (page_data page) > 0")
  case False
  with assms show ?thesis by (simp add: processPage_def)
next
  case True
  show ?thesis
  proof (cases "transformEvents (otherDates p) (page_data page)")
    case (Inl e)
    with True assms show ?thesis by (simp add: processPage_def)
  next
    case (Inr rows)
    obtain res w2 where a: "add (batchSize p) rows w = (res, w2)" by (cases "add (batchSize p) rows w")
    have c2: "cursor_state (db w2) = cursor_state (db w)"
      using add_cursor_state [of "batchSize p" rows w] a by simp
    show ?thesis
    proof (cases res)
      case (Inl e)
      with True Inr a c2 assms show ?thesis by (simp add: processPage_def)
    next
      case (Inr u)
      with True \<open>transformEvents (otherDates p) (page_data page) = Inr rows\<close> a assms
      show ?thesis
        by (auto simp: processPage_def update_def split: if_splits prod.splits sum.splits)
    qed
  qed
qed

lemma emit_db: "db (emit evs w) = db w"
  by (simp add: emit_def)

lemma standard_loop_null_cursor:
  "final_state (standard_loop p limit stop going st w script) = Some st1 \<Longrightarrow> cursor st1 = None
     \<Longrightarrow> cursor st = None
       \<and> cursor_state (db (world_of (standard_loop p limit stop going st w script))) = cursor_state (db w)"
proof (induction p limit stop going st w script rule: standard_loop.induct)
  case (1 p limit stop going st w script)
  show ?case
  proof (cases "\<not> going \<or> shouldStop stop")
    case True
    with "1.prems" show ?thesis by (subst (asm) standard_loop.simps, subst standard_loop.simps) simp
  next
    case False
    obtain res rest evs where f: "fetchPage (hasStreamToken p) limit (cursor st) script = (res, rest, evs)"
      by (cases "fetchPage (hasStreamToken p) limit (cursor st) script")
    show ?thesis
    proof (cases res)
      case None
      with False f "1.prems" show ?thesis by (subst (asm) standard_loop.simps) simp
    next
      case (Some r)
      show ?thesis
      proof (cases r)
        case (Inl e)
        have eq: "standard_loop p limit stop going st w script = Throws e st (emit evs w) rest"
          using False f Some Inl by (subst standard_loop.simps) simp
        with "1.prems" show ?thesis by (simp add: emit_db)
      next
        case (Inr page)
        obtain eo st2 w2 where pp: "processPage p limit page st (emit evs w) = (eo, st2, w2)"
          by (cases "processPage p limit page st (emit evs w)")
        show ?thesis
        proof (cases eo)
          case (Some e)
          have eq: "standard_loop p limit stop going st w script = Throws e st2 w2 rest"
            using False f \<open>res = Some r\<close> Inr pp Some by (subst standard_loop.simps) simp
          with "1.prems" have "st2 = st1" by simp
          with "1.prems"(2) processPage_null_cursor [OF pp] eq show ?thesis by (simp add: emit_db)
        next
          case None
          let ?stop' = "if hasMore page then after_read (after_read stop) else after_read stop"
          have eq: "standard_loop p limit stop going st w script
                      = standard_loop p limit ?stop' (hasMore page) st2 w2 rest"
            using False f \<open>res = Some r\<close> Inr pp None by (subst standard_loop.simps) simp
          have ih: "cursor st2 = None
                    \<and> cursor_state (db (world_of (standard_loop p limit ?stop' (hasMore page) st2 w2 rest)))
                      = cursor_state (db w2)"
            using "1.IH" [OF False f [symmetric] \<open>res = Some r\<close> Inr refl pp [symmetric] None refl]
                  "1.prems" eq
            by simp
          with processPage_null_cursor [OF pp] eq show ?thesis by (simp add: emit_db)
        qed
      qed
    qed
  qed
qed

lemma stream_loop_null_cursor:
  "final_state (stream_loop p limit stop going pending st w script) = Some st1 \<Longrightarrow> cursor st1 = None
     \<Longrightarrow> cursor st = None
       \<and> cursor_state (db (world_of (stream_loop p limit stop going pending st w script))) = cursor_state (db w)"
proof (induction p limit stop going pending st w script rule: stream_loop.induct)
  case (1 p limit stop going pending st w script)
  show ?case
  proof (cases "\<not> going \<or> shouldStop stop")
    case True
    with "1.prems" show ?thesis by (subst (asm) stream_loop.simps, subst stream_loop.simps) simp
  next
    case False
    show ?thesis
    proof (cases pending)
      case None
      with False "1.prems" show ?thesis by (subst (asm) stream_loop.simps) simp
    next
      case (Some r)
      show ?thesis
      proof (cases r)
        case (Inl e)
        have eq: "stream_loop p limit stop going pending st w script = Throws e st w script"
          using False Some Inl by (subst stream_loop.simps) simp
        with "1.prems" show ?thesis by simp
      next
        case (Inr page)
        show ?thesis
        proof (cases "hasMore page \<and> \<not> shouldStop (after_read stop)")
          case True
          obtain pending' rest evs where
            f: "fetchPage (hasStreamToken p) limit (Some (nextCursor page)) script = (pending', rest, evs)"
            by (cases "fetchPage (hasStreamToken p) limit (Some (nextCursor page)) script")
          obtain eo st2 w2 where pp: "processPage p limit page st (emit evs w) = (eo, st2, w2)"
            by (cases "processPage p limit page st (emit evs w)")
          show ?thesis
          proof (cases eo)
            case (Some e)
            have eq: "stream_loop p limit stop going pending st w script = Throws e st2 w2 rest"
              using False \<open>pending = Some r\<close> Inr True f pp Some by (subst stream_loop.simps) simp
            with "1.prems" have "st2 = st1" by simp
            with "1.prems"(2) processPage_null_cursor [OF pp] eq show ?thesis by (simp add: emit_db)
          next
            case None
            have eq: "stream_loop p limit stop going pending st w script
                        = stream_loop p limit (after_read (after_read stop)) True pending' st2 w2 rest"
              using False \<open>pending = Some r\<close> Inr True f pp None by (subst stream_loop.simps) simp
            have ih: "cursor st2 = None
                      \<and> cursor_state (db (world_of (stream_loop p limit (after_read (after_read stop)) True pending' st2 w2 rest)))
                        = cursor_state (db w2)"
              using "1.IH"(1) [OF False \<open>pending = Some r\<close> Inr True f [symmetric] refl pp [symmetric] None refl]
                    "1.prems" eq
              by simp
            with processPage_null_cursor [OF pp] eq show ?thesis by (simp add: emit_db)
          qed
        next
          case nofetch: False
          obtain eo st2 w2 where pp: "processPage p limit page st w = (eo, st2, w2)"
            by (cases "processPage p limit page st w")
          show ?thesis
          proof (cases eo)
            case (Some e)
            have eq: "stream_loop p limit stop going pending st w script = Throws e st2 w2 script"
              using False \<open>pending = Some r\<close> Inr nofetch pp Some by (subst stream_loop.simps) auto
            with "1.prems" have "st2 = st1" by simp
            with "1.prems"(2) processPage_null_cursor [OF pp] eq show ?thesis by simp
          next
            case None
            let ?stop' = "if hasMore page then after_read (after_read stop) else after_read stop"
            have eq: "stream_loop p limit stop going pending st w script
                        = stream_loop p limit ?stop' (hasMore page) pending st2 w2 script"
              using False \<open>pending = Some r\<close> Inr nofetch pp None by (subst stream_loop.simps) auto
            have ih: "cursor st2 = None
                      \<and> cursor_state (db (world_of (stream_loop p limit ?stop' (hasMore page) pending st2 w2 script)))
                        = cursor_state (db w2)"
              using "1.IH"(2) [OF False \<open>pending = Some r\<close> Inr nofetch pp [symmetric] None refl]
                    "1.prems" eq
              by simp
            with processPage_null_cursor [OF pp] eq show ?thesis by simp
          qed
        qed
      qed
    qed
  qed
qed


lemma loadCursor_db: "db (snd (loadCursor w)) = db w"
  by (auto simp: loadCursor_def next_outcome_def split: list.splits db_outcome.splits prod.splits)

lemma loadCursor_fresh:
  assumes "loadCursor w = (Inr loaded, w0)" and "cursor (start_state loaded) = None"
  shows "loaded = None \<and> cursor_state (db w) = []"
  using assms
  by (auto simp: loadCursor_def next_outcome_def start_state_def fromRow_def Let_def
        split: list.splits db_outcome.splits prod.splits option.splits)

lemma fetch_loop_null_cursor:
  assumes "final_state (fetch_loop p stop st w script) = Some st1" and "cursor st1 = None"
  shows "cursor st = None
     \<and> cursor_state (db (world_of (fetch_loop p stop st w script))) = cursor_state (db w)"
proof (cases "hasStreamToken p")
  case False
  with assms standard_loop_null_cursor [of p 5000 stop True st w script st1]
  show ?thesis by (simp add: fetch_loop_def)
next
  case True
  obtain pending rest evs where f: "fetchPage (hasStreamToken p) 40000 (cursor st) script = (pending, rest, evs)"
    by (cases "fetchPage (hasStreamToken p) 40000 (cursor st) script")
  with True assms stream_loop_null_cursor [of p 40000 stop True pending st "emit evs w" rest st1]
  show ?thesis by (simp add: fetch_loop_def emit_db)
qed

lemma drain_null_cursor:
  assumes "cursor st = None"
  shows "cursor_state (db (snd (drain st w))) = cursor_state (db w)"
proof -
  obtain res w1 where c: "close w = (res, w1)" by (cases "close w")
  then have "cursor_state (db w1) = cursor_state (db w)"
    using flush_cursor_state [of w] by (simp add: close_def)
  with c assms show ?thesis
    by (cases res) (simp_all add: drain_def saveCursor_null)
qed

lemma finish_null_cursor:
  assumes "final_state r = Some st1" and "cursor st1 = None"
  shows "cursor_state (db (fst (snd (finish r)))) = cursor_state (db (world_of r))"
proof (cases r)
  case (Hangs w)
  with assms show ?thesis by simp
next
  case (Throws e st w rest)
  with assms have "cursor st = None" by simp
  from drain_null_cursor [OF this, of "emit [Warn (PipelineInterrupted e)] w"] Throws
  show ?thesis by (auto simp: finish_def emit_db split: prod.splits sum.splits)
next
  case (Ends st w rest)
  with assms have "cursor st = None" by simp
  from drain_null_cursor [OF this, of w] Ends
  show ?thesis by (auto simp: finish_def split: prod.splits sum.splits)
qed

text \<open>
  C10: a checkpoint state whose cursor is null is not written: \<^verbatim>\<open>saveCursor\<close> returns
  without touching the world. And when a run's fetch loop comes to its end, by leaving
  the loop or by an error, with the cursor still null, the run has started from an
  empty checkpoint table and leaves it empty, the save at shutdown included.
\<close>

theorem null_cursor_is_never_saved:
  "(cursor st = None \<longrightarrow> saveCursor st w = (Inr (), w))
   \<and> (loadCursor w = (Inr loaded, w0)
        \<and> final_state (fetch_loop p stop (start_state loaded) w0 script) = Some st1
        \<and> cursor st1 = None
      \<longrightarrow> cursor_state (db (fst (snd (run p stop w script)))) = []
          \<and> cursor_state (db w) = [])"
proof (rule conjI; rule impI)
  assume "cursor st = None"
  then show "saveCursor st w = (Inr (), w)" by (rule saveCursor_null)
next
  assume h: "loadCursor w = (Inr loaded, w0)
        \<and> final_state (fetch_loop p stop (start_state loaded) w0 script) = Some st1
        \<and> cursor st1 = None"
  let ?r = "fetch_loop p stop (start_state loaded) w0 script"
  from h have l: "loadCursor w = (Inr loaded, w0)" and f: "final_state ?r = Some st1"
    and n: "cursor st1 = None" by simp_all
  from fetch_loop_null_cursor [OF f n]
  have s: "cursor (start_state loaded) = None" and k: "cursor_state (db (world_of ?r)) = cursor_state (db w0)"
    by simp_all
  from loadCursor_fresh [OF l s] have e: "cursor_state (db w) = []" by simp
  have "db w0 = db w" using loadCursor_db [of w] l by simp
  with finish_null_cursor [OF f n] k e l
  show "cursor_state (db (fst (snd (run p stop w script)))) = [] \<and> cursor_state (db w) = []"
    by (simp add: run_def)
qed

theorem null_cursor_is_never_saved_witness:
  "loadCursor fresh_world = (Inr None, fresh_world)
   \<and> final_state (fetch_loop standard_pipeline None (start_state None) fresh_world [Resolved empty_page])
       = Some create
   \<and> cursor create = None
   \<and> saveCursor create fresh_world = (Inr (), fresh_world)
   \<and> cursor_state (db (fst (snd (run standard_pipeline None fresh_world [Resolved empty_page])))) = []"
proof -
  have l: "loadCursor fresh_world = (Inr None, fresh_world)" by code_simp
  have f: "final_state (fetch_loop standard_pipeline None (start_state None) fresh_world [Resolved empty_page])
       = Some create" by code_simp
  have c: "cursor create = None" by (simp add: create_def)
  show ?thesis
    using l f c null_cursor_is_never_saved [of create fresh_world None fresh_world standard_pipeline None "[Resolved empty_page]" create]
    by simp
qed

lemma transformEvents_length:
  "transformEvents other recs = Inr rows \<Longrightarrow> length rows = length recs"
  by (induction recs arbitrary: rows) (auto split: sum.splits)

lemma isc_fresh_rows:
  "distinct (map row_id (dest @ rs)) \<Longrightarrow> insert_skip_conflict dest rs = dest @ rs"
  by (induction rs arbitrary: dest) auto

lemma flush_requests: "requests (snd (flush w)) = requests w"
  by (auto simp: requests_def flush_def next_outcome_def emit_def split: list.splits db_outcome.splits)

lemma add_requests: "requests (snd (add bs rows w)) = requests w"
proof (induction rows arbitrary: w)
  case Nil
  show ?case by simp
next
  case (Cons r rows)
  show ?case
  proof (cases "length (buffer w @ [r]) \<ge> bs")
    case True
    obtain res w1 where f: "flush (w\<lparr>buffer := buffer w @ [r]\<rparr>) = (res, w1)"
      by (cases "flush (w\<lparr>buffer := buffer w @ [r]\<rparr>)")
    have c1: "requests w1 = requests w"
      using flush_requests [of "w\<lparr>buffer := buffer w @ [r]\<rparr>"] f by (simp add: requests_def)
    show ?thesis
    proof (cases res)
      case (Inl e)
      with True f c1 show ?thesis by simp
    next
      case (Inr u)
      with True f c1 Cons.IH [of w1] show ?thesis by simp
    qed
  next
    case False
    with Cons.IH [of "w\<lparr>buffer := buffer w @ [r]\<rparr>"] show ?thesis by (simp add: requests_def)
  qed
qed

lemma saveCursor_quiet:
  assumes "quiet w" and "cursor st = Some c"
  shows "\<exists>w'. saveCursor st w = (Inr (), w') \<and> quiet w' \<and> buffer w' = buffer w
           \<and> ingested_events (db w') = ingested_events (db w)
           \<and> cursor_state (db w') = cursor_state (db w) @ [(c, eventsIngested st)]
           \<and> requests w' = requests w"
  using assms by (simp add: saveCursor_def quiet_def next_outcome_def emit_def requests_def)

lemma processPage_quiet:
  assumes "quiet w" and "transformEvents (otherDates p) (page_data page) = Inr rows"
    and "page_data page \<noteq> []"
    and "js_rem (eventsIngested st + int (length rows)) 50000 < int limit"
  shows "\<exists>w'. processPage p limit page st w
              = (None, update st (nextCursor page) (int (length rows)), w')
           \<and> quiet w' \<and> requests w' = requests w
           \<and> cursor_state (db w')
               = cursor_state (db w) @ [(nextCursor page, eventsIngested st + int (length rows))]
           \<and> insert_skip_conflict (ingested_events (db w')) (buffer w')
               = insert_skip_conflict (ingested_events (db w)) (buffer w @ rows)"
proof -
  from add_quiet [OF assms(1), of "batchSize p" rows] obtain w1 where
    a: "add (batchSize p) rows w = (Inr (), w1)" and q1: "quiet w1"
    and c1: "cursor_state (db w1) = cursor_state (db w)"
    and i1: "insert_skip_conflict (ingested_events (db w1)) (buffer w1)
               = insert_skip_conflict (ingested_events (db w)) (buffer w @ rows)"
    by blast
  have r1: "requests w1 = requests w" using add_requests [of "batchSize p" rows w] a by simp
  let ?st = "update st (nextCursor page) (int (length rows))"
  have cs: "cursor ?st = Some (nextCursor page)" and ev: "eventsIngested ?st = eventsIngested st + int (length rows)"
    by (simp_all add: update_def)
  from saveCursor_quiet [OF q1 cs] obtain w' where
    s: "saveCursor ?st w1 = (Inr (), w')" and q': "quiet w'" and b': "buffer w' = buffer w1"
    and i': "ingested_events (db w') = ingested_events (db w1)"
    and c': "cursor_state (db w') = cursor_state (db w1) @ [(nextCursor page, eventsIngested ?st)]"
    and r': "requests w' = requests w1"
    by blast
  have "processPage p limit page st w = (None, ?st, w')"
    using assms(2,3,4) a s ev by (simp add: processPage_def)
  with q' r' r1 c' c1 ev i' b' i1 show ?thesis by simp
qed

lemma drain_quiet:
  assumes "quiet w" and "cursor st = Some c"
  shows "\<exists>w'. drain st w = (Inr (), w') \<and> buffer w' = [] \<and> requests w' = requests w
           \<and> ingested_events (db w') = insert_skip_conflict (ingested_events (db w)) (buffer w)
           \<and> cursor_state (db w') = cursor_state (db w) @ [(c, eventsIngested st)]"
proof -
  from flush_quiet [OF assms(1)] obtain w1 where
    f: "flush w = (Inr (), w1)" and q1: "quiet w1" and b1: "buffer w1 = []"
    and c1: "cursor_state (db w1) = cursor_state (db w)"
    and i1: "ingested_events (db w1) = insert_skip_conflict (ingested_events (db w)) (buffer w)"
    by blast
  have r1: "requests w1 = requests w" using flush_requests [of w] f by simp
  from saveCursor_quiet [OF q1 assms(2)] obtain w' where
    "saveCursor st w1 = (Inr (), w')" "buffer w' = buffer w1"
    "ingested_events (db w') = ingested_events (db w1)"
    "cursor_state (db w') = cursor_state (db w1) @ [(c, eventsIngested st)]"
    "requests w' = requests w1"
    by blast
  with f b1 c1 i1 r1 show ?thesis by (simp add: drain_def close_def)
qed

lemma fresh_world_facts:
  "quiet fresh_world" "buffer fresh_world = []" "ingested_events (db fresh_world) = []"
  "cursor_state (db fresh_world) = []" "requests fresh_world = []"
  "loadCursor fresh_world = (Inr None, fresh_world)"
  by (simp_all add: fresh_world_def quiet_def requests_def loadCursor_def next_outcome_def)

lemma last_page_loop:
  assumes "quiet w" and "transformEvents (otherDates p) (page_data page) = Inr rows"
    and "page_data page \<noteq> []" and "\<not> hasMore page" and "\<not> shouldStop stop"
    and "js_rem (eventsIngested st + int (length rows)) 50000
           < int (if hasStreamToken p then 40000 else 5000)"
    and "\<not> cursor_given (cursor st)"
  shows "\<exists>w'. fetch_loop p stop st w (Resolved page # others)
              = Ends (update st (nextCursor page) (int (length rows))) w' others
           \<and> quiet w'
           \<and> requests w' = requests w @ [Get (endpoint (hasStreamToken p)) (if hasStreamToken p then 40000 else 5000) None]
           \<and> cursor_state (db w')
               = cursor_state (db w) @ [(nextCursor page, eventsIngested st + int (length rows))]
           \<and> insert_skip_conflict (ingested_events (db w')) (buffer w')
               = insert_skip_conflict (ingested_events (db w)) (buffer w @ rows)"
proof -
  let ?limit = "if hasStreamToken p then 40000 else 5000 :: nat"
  let ?ev = "Get (endpoint (hasStreamToken p)) ?limit None"
  have f: "fetchPage (hasStreamToken p) ?limit (cursor st) (Resolved page # others)
             = (Some (Inr page), others, [?ev])"
    using assms(7) by (simp add: fetchPage_def)
  have q: "quiet (emit [?ev] w)" using assms(1) by (simp add: quiet_def emit_def)
  from processPage_quiet [OF q assms(2,3), of st ?limit] assms(6) obtain w' where
    pp: "processPage p ?limit page st (emit [?ev] w)
              = (None, update st (nextCursor page) (int (length rows)), w')"
    and q': "quiet w'" and r': "requests w' = requests (emit [?ev] w)"
    and c': "cursor_state (db w')
               = cursor_state (db (emit [?ev] w)) @ [(nextCursor page, eventsIngested st + int (length rows))]"
    and i': "insert_skip_conflict (ingested_events (db w')) (buffer w')
               = insert_skip_conflict (ingested_events (db (emit [?ev] w))) (buffer (emit [?ev] w) @ rows)"
    by blast
  have e: "requests (emit [?ev] w) = requests w @ [?ev]" "db (emit [?ev] w) = db w"
    "buffer (emit [?ev] w) = buffer w"
    by (simp_all add: requests_def emit_def)
  let ?st = "update st (nextCursor page) (int (length rows))"
  have "fetch_loop p stop st w (Resolved page # others) = Ends ?st w' others"
  proof (cases "hasStreamToken p")
    case False
    have "standard_loop p 5000 stop True st w (Resolved page # others)
            = standard_loop p 5000 (after_read stop) False ?st w' others"
      using False f pp assms(4,5) by (subst standard_loop.simps) simp
    also have "\<dots> = Ends ?st w' others" by (subst standard_loop.simps) simp
    finally show ?thesis using False by (simp add: fetch_loop_def)
  next
    case True
    have "stream_loop p 40000 stop True (Some (Inr page)) st (emit [?ev] w) others
            = stream_loop p 40000 (after_read stop) False (Some (Inr page)) ?st w' others"
      using True pp assms(4,5) by (subst stream_loop.simps) simp
    also have "\<dots> = Ends ?st w' others" by (subst stream_loop.simps) simp
    finally show ?thesis using True f by (simp add: fetch_loop_def)
  qed
  with q' r' c' i' e show ?thesis by simp
qed

text \<open>
  C5, amended: from an empty store, with a database that does not fail and no stop
  requested before the first fetch, a single page of three valid records with distinct
  ids and \<^verbatim>\<open>hasMore = false\<close> makes the run, in either mode and for any batch size, send
  exactly one request (without cursor) and consume exactly one answer, write the three
  rows, and save the checkpoint twice, once in the loop and once at shutdown, both times
  with the page's cursor and the count 3; the run returns normally.
\<close>

theorem single_page_scenario:
  assumes "transformEvents (otherDates p) (page_data page) = Inr rows"
    and "length (page_data page) = 3" and "distinct (map row_id rows)"
    and "\<not> hasMore page" and "\<not> shouldStop stop"
  shows "\<exists>w'. run p stop fresh_world (Resolved page # others) = (Some (Inr ()), w', others)
           \<and> requests w' = [Get (endpoint (hasStreamToken p)) (if hasStreamToken p then 40000 else 5000) None]
           \<and> ingested_events (db w') = rows \<and> length rows = 3 \<and> buffer w' = []
           \<and> cursor_state (db w') = [(nextCursor page, 3), (nextCursor page, 3)]"
proof -
  have n: "length rows = 3" using transformEvents_length [OF assms(1)] assms(2) by simp
  have ne: "page_data page \<noteq> []" using assms(2) by auto
  have j: "js_rem (eventsIngested create + int (length rows)) 50000
             < int (if hasStreamToken p then 40000 else 5000)"
    using n by (simp add: create_def js_rem_def)
  have g: "\<not> cursor_given (cursor create)" by (simp add: create_def cursor_given_def)
  let ?st = "update create (nextCursor page) (int (length rows))"
  from last_page_loop [OF fresh_world_facts(1) assms(1) ne assms(4,5) j g, of others] obtain w1 where
    l: "fetch_loop p stop create fresh_world (Resolved page # others) = Ends ?st w1 others"
    and q1: "quiet w1"
    and r1: "requests w1 = requests fresh_world @ [Get (endpoint (hasStreamToken p)) (if hasStreamToken p then 40000 else 5000) None]"
    and c1: "cursor_state (db w1) = cursor_state (db fresh_world) @ [(nextCursor page, eventsIngested create + int (length rows))]"
    and i1: "insert_skip_conflict (ingested_events (db w1)) (buffer w1)
               = insert_skip_conflict (ingested_events (db fresh_world)) (buffer fresh_world @ rows)"
    by blast
  have cs: "cursor ?st = Some (nextCursor page)" and ev: "eventsIngested ?st = 3"
    using n by (simp_all add: update_def create_def)
  from drain_quiet [OF q1 cs] obtain w' where
    d: "drain ?st w1 = (Inr (), w')" and b': "buffer w' = []" and r': "requests w' = requests w1"
    and i': "ingested_events (db w') = insert_skip_conflict (ingested_events (db w1)) (buffer w1)"
    and c': "cursor_state (db w') = cursor_state (db w1) @ [(nextCursor page, eventsIngested ?st)]"
    by blast
  have rows: "ingested_events (db w') = rows"
    using i' i1 isc_fresh_rows [of "[]" rows] assms(3) by (simp add: fresh_world_facts)
  have "run p stop fresh_world (Resolved page # others) = (Some (Inr ()), w', others)"
    using l d by (simp add: run_def fresh_world_facts start_state_def finish_def)
  with r' r1 rows n b' c' c1 ev show ?thesis
    by (simp add: fresh_world_facts create_def)
qed

theorem single_page_scenario_witness:
  "transformEvents (otherDates standard_pipeline) (page_data single_page)
     = Inr [sample_row ''1'', sample_row ''2'', sample_row ''3'']
   \<and> length (page_data single_page) = 3
   \<and> distinct (map row_id [sample_row ''1'', sample_row ''2'', sample_row ''3''])
   \<and> \<not> hasMore single_page \<and> \<not> shouldStop None
   \<and> fst (run standard_pipeline None fresh_world [Resolved single_page]) = Some (Inr ())
   \<and> cursor_state (db (fst (snd (run standard_pipeline None fresh_world [Resolved single_page]))))
       = [(''cur-final'', 3), (''cur-final'', 3)]
   \<and> ingested_events (db (fst (snd (run standard_pipeline None fresh_world [Resolved single_page]))))
       = [sample_row ''1'', sample_row ''2'', sample_row ''3'']"
proof -
  have t: "transformEvents (otherDates standard_pipeline) (page_data single_page)
     = Inr [sample_row ''1'', sample_row ''2'', sample_row ''3'']"
    by code_simp
  have l: "length (page_data single_page) = 3" and h: "\<not> hasMore single_page"
    and c: "nextCursor single_page = ''cur-final''"
    by (simp_all add: single_page_def)
  have d: "distinct (map row_id [sample_row ''1'', sample_row ''2'', sample_row ''3''])"
    by (simp add: sample_row_def)
  have s: "\<not> shouldStop None" by (simp add: shouldStop_def)
  from single_page_scenario [OF t l d h s, of "[]"] c t l d h s show ?thesis by auto
qed

lemma single_page_run:
  "run standard_pipeline None fresh_world [Resolved single_page] =
     (Some (Inr ()),
      \<lparr>db = \<lparr>staging_events = [],
              ingested_events = [sample_row ''1'', sample_row ''2'', sample_row ''3''],
              cursor_state = [(''cur-final'', 3), (''cur-final'', 3)]\<rparr>,
       buffer = [], faults = [],
       trace = [Get ''/events'' 5000 None, SaveCursor ''cur-final'' 3,
                Commit [sample_row ''1'', sample_row ''2'', sample_row ''3''],
                SaveCursor ''cur-final'' 3]\<rparr>,
      [])"
  by code_simp

lemma single_page_run_failing_flush:
  "run standard_pipeline None (fresh_world\<lparr>faults := [DbOk, DbOk, DbFails ''boom'']\<rparr>)
       [Resolved single_page] =
     (Some (Inl (DbError ''boom'')),
      \<lparr>db = \<lparr>staging_events = [], ingested_events = [], cursor_state = [(''cur-final'', 3)]\<rparr>,
       buffer = [], faults = [],
       trace = [Get ''/events'' 5000 None, SaveCursor ''cur-final'' 3,
                Rollback [sample_row ''1'', sample_row ''2'', sample_row ''3'']]\<rparr>,
      [])"
  by code_simp

text \<open>
  C5, as stated, fails: in the one-page scenario the checkpoint is not saved once but
  twice, and \<open>cursor_state\<close> ends with two rows.
\<close>

theorem single_page_checkpoint_once_counterexample:
  "fst (run standard_pipeline None fresh_world [Resolved single_page]) = Some (Inr ())
   \<and> cursor_state (db (fst (snd (run standard_pipeline None fresh_world [Resolved single_page]))))
       = [(''cur-final'', 3), (''cur-final'', 3)]
   \<and> length (cursor_state (db (fst (snd (run standard_pipeline None fresh_world [Resolved single_page])))))
       \<noteq> 1"
  by (simp add: single_page_run)

text \<open>
  C1 on the code: in the one-page scenario with the batch size 5000 the checkpoint for
  three events is inserted before the flush that commits their rows; and when that
  flush fails, the run ends with the checkpoint for three events in \<open>cursor_state\<close>, no
  row in \<open>ingested_events\<close> and an empty buffer.
\<close>

theorem checkpoint_saved_before_rows_committed:
  "trace (fst (snd (run standard_pipeline None fresh_world [Resolved single_page])))
     = [Get ''/events'' 5000 None, SaveCursor ''cur-final'' 3,
        Commit [sample_row ''1'', sample_row ''2'', sample_row ''3''],
        SaveCursor ''cur-final'' 3]
   \<and> cursor_state (db (fst (snd (run standard_pipeline None
          (fresh_world\<lparr>faults := [DbOk, DbOk, DbFails ''boom'']\<rparr>) [Resolved single_page]))))
       = [(''cur-final'', 3)]
   \<and> ingested_events (db (fst (snd (run standard_pipeline None
          (fresh_world\<lparr>faults := [DbOk, DbOk, DbFails ''boom'']\<rparr>) [Resolved single_page]))))
       = []
   \<and> buffer (fst (snd (run standard_pipeline None
          (fresh_world\<lparr>faults := [DbOk, DbOk, DbFails ''boom'']\<rparr>) [Resolved single_page])))
       = []"
  by (simp add: single_page_run single_page_run_failing_flush)

end
